theory Spec2Isabelle
  imports Complex_Main "HOL-Library.Multiset"
begin

section \<open>Rate laws (RateLaws.h)\<close>

text \<open>
  In this section and in the model of the rate manager the C++ type \<open>double\<close> is
  modelled by \<^typ>\<open>real\<close>: every arithmetic operation of the source is the exact
  operation on reals, \<open>std::log\<close> is \<^const>\<open>ln\<close>, and a division by zero, which gives an
  infinity or a NaN in the source, is the value \<open>0\<close> of HOL. That model says which
  expression is evaluated and which cell it is written to; it cannot say whether a
  result is exact or whether two results differ, which depend on rounding and overflow.
  The statements of that kind about \<open>Arrhenius::getLnRate\<close> are therefore made over
  the model of double-precision arithmetic of the next section.
  Each rate-law class is a datatype whose constructor carries the private members in
  the order the class declares them; the member names are the pattern variables of
  the evaluation functions.
\<close>

text \<open>class Arrhenius: members \<open>m_lnA\<close>, \<open>m_n\<close>, \<open>m_temp\<close>.\<close>

datatype Arrhenius = Arrhenius real real real

fun Arrhenius_getLnRate :: "Arrhenius \<Rightarrow> real \<Rightarrow> real \<Rightarrow> real" where
  "Arrhenius_getLnRate (Arrhenius m_lnA m_n m_temp) lnT invT =
     m_lnA + m_n * lnT - m_temp * invT"

fun Arrhenius_derivative :: "Arrhenius \<Rightarrow> real \<Rightarrow> real \<Rightarrow> real \<Rightarrow> real" where
  "Arrhenius_derivative (Arrhenius m_lnA m_n m_temp) k lnT invT =
     k * invT * (m_n + m_temp * invT)"

fun Arrhenius_A :: "Arrhenius \<Rightarrow> real" where
  "Arrhenius_A (Arrhenius m_lnA m_n m_temp) = exp m_lnA"

text \<open>
  class rationalExp: members \<open>m_n\<close>, \<open>m_temp\<close>, \<open>m_a0\<close>, \<open>m_a1\<close>, \<open>m_a2\<close>,
  \<open>m_b0\<close>, \<open>m_b1\<close>, \<open>m_b2\<close>, \<open>m_b3\<close>.
\<close>

datatype rationalExp = rationalExp real real real real real real real real real

fun rationalExp_getLnRate :: "rationalExp \<Rightarrow> real \<Rightarrow> real \<Rightarrow> real \<Rightarrow> real \<Rightarrow> real" where
  "rationalExp_getLnRate (rationalExp m_n m_temp m_a0 m_a1 m_a2 m_b0 m_b1 m_b2 m_b3)
       lnT invT T sqT =
     m_n * lnT - m_temp * invT
       + ln ((m_a0 + m_a1 * T + m_a2 * sqT) / (m_b0 + m_b1 * T + m_b2 * sqT + m_b3 * sqT * T))"

text \<open>class constRate: member \<open>m_lnA\<close>.\<close>

datatype constRate = constRate real

fun constRate_getLnRate :: "constRate \<Rightarrow> real" where
  "constRate_getLnRate (constRate m_lnA) = m_lnA"

fun constRate_derivative :: "constRate \<Rightarrow> real" where
  "constRate_derivative (constRate m_lnA) = 0"

text \<open>
  class expRat33: members \<open>m_a0\<close>, \<open>m_a1\<close>, \<open>m_a2\<close>, \<open>m_a3\<close>, \<open>m_b0\<close>, \<open>m_b1\<close>,
  \<open>m_b2\<close>. Its evaluation function is also called \<open>getLnRate\<close>.
\<close>

datatype expRat33 = expRat33 real real real real real real real

fun expRat33_getLnRate :: "expRat33 \<Rightarrow> real \<Rightarrow> real" where
  "expRat33_getLnRate (expRat33 m_a0 m_a1 m_a2 m_a3 m_b0 m_b1 m_b2) T =
     (m_a0 + (m_a1 + (m_a2 + m_a3 * T) * T) * T)
       / (m_b0 + (m_b1 + (m_b2 + T) * T) * T)"

section \<open>Double-precision arithmetic\<close>

text \<open>
  A \<open>double\<close> is an IEEE 754 binary64 number: a significand of 53 bits, exponents from
  \<open>-1022\<close> to \<open>1023\<close>, gradual underflow, two infinities and NaN. Every arithmetic
  operation returns the exact result rounded to the nearest double, ties to the even
  significand.

  \<open>rne\<close> rounds a real to the nearest integer, ties to even. \<open>expo x\<close> is the exponent
  of the binade of a positive \<open>x\<close>, held at \<open>-1022\<close> in the subnormal range, and \<open>ulp x\<close>
  the distance between neighbouring doubles there. \<open>rnd64\<close> rounds a real to the
  nearest number of the format with the exponent unbounded above; \<open>DBL_MAX\<close> is the
  largest finite double.
\<close>

definition rne :: "real \<Rightarrow> int" where
  "rne x =
     (if x - of_int \<lfloor>x\<rfloor> < 1 / 2 then \<lfloor>x\<rfloor>
      else if 1 / 2 < x - of_int \<lfloor>x\<rfloor> then \<lfloor>x\<rfloor> + 1
      else if even \<lfloor>x\<rfloor> then \<lfloor>x\<rfloor> else \<lfloor>x\<rfloor> + 1)"

definition expo :: "real \<Rightarrow> int" where
  "expo x = max \<lfloor>log 2 x\<rfloor> (- 1022)"

definition ulp :: "real \<Rightarrow> real" where
  "ulp x = 2 powi (expo x - 52)"

definition round_pos :: "real \<Rightarrow> real" where
  "round_pos x = of_int (rne (x / ulp x)) * ulp x"

definition rnd64 :: "real \<Rightarrow> real" where
  "rnd64 x = (if x = 0 then 0 else if 0 < x then round_pos x else - round_pos (- x))"

definition DBL_MAX :: real where
  "DBL_MAX = (2 - 2 powi (- 52)) * 2 powi 1023"

text \<open>
  The values of the type: a finite number, an infinity or NaN. The sign of a zero is
  not kept (a zero divisor counts as \<open>+0\<close>), and one NaN stands for all of them.
  \<open>round_d\<close> is the rounding of an exact result, with overflow to an infinity when the
  rounded value is beyond \<open>DBL_MAX\<close>. The operations \<open>-x\<close>, \<open>+\<close>, \<open>-\<close>, \<open>*\<close> and \<open>/\<close> of
  the source follow; the special cases are those of IEEE 754 (\<open>inf - inf\<close>, \<open>0 * inf\<close>,
  \<open>0 / 0\<close> and \<open>inf / inf\<close> are NaN, and NaN propagates).
\<close>

datatype double = Finite real | PlusInf | MinusInf | NaN

definition round_d :: "real \<Rightarrow> double" where
  "round_d x =
     (if DBL_MAX < rnd64 x then PlusInf
      else if rnd64 x < - DBL_MAX then MinusInf
      else Finite (rnd64 x))"

fun dneg :: "double \<Rightarrow> double" where
  "dneg (Finite x) = Finite (- x)"
| "dneg PlusInf = MinusInf"
| "dneg MinusInf = PlusInf"
| "dneg NaN = NaN"

fun dadd :: "double \<Rightarrow> double \<Rightarrow> double" where
  "dadd NaN b = NaN"
| "dadd a NaN = NaN"
| "dadd (Finite x) (Finite y) = round_d (x + y)"
| "dadd PlusInf MinusInf = NaN"
| "dadd MinusInf PlusInf = NaN"
| "dadd PlusInf b = PlusInf"
| "dadd a PlusInf = PlusInf"
| "dadd MinusInf b = MinusInf"
| "dadd a MinusInf = MinusInf"

definition dsub :: "double \<Rightarrow> double \<Rightarrow> double" where
  "dsub a b = dadd a (dneg b)"

fun dmul :: "double \<Rightarrow> double \<Rightarrow> double" where
  "dmul NaN b = NaN"
| "dmul a NaN = NaN"
| "dmul (Finite x) (Finite y) = round_d (x * y)"
| "dmul (Finite x) PlusInf = (if x = 0 then NaN else if 0 < x then PlusInf else MinusInf)"
| "dmul (Finite x) MinusInf = (if x = 0 then NaN else if 0 < x then MinusInf else PlusInf)"
| "dmul PlusInf (Finite y) = (if y = 0 then NaN else if 0 < y then PlusInf else MinusInf)"
| "dmul MinusInf (Finite y) = (if y = 0 then NaN else if 0 < y then MinusInf else PlusInf)"
| "dmul PlusInf PlusInf = PlusInf"
| "dmul PlusInf MinusInf = MinusInf"
| "dmul MinusInf PlusInf = MinusInf"
| "dmul MinusInf MinusInf = PlusInf"

fun ddiv :: "double \<Rightarrow> double \<Rightarrow> double" where
  "ddiv NaN b = NaN"
| "ddiv a NaN = NaN"
| "ddiv (Finite x) (Finite y) =
     (if y = 0 then (if x = 0 then NaN else if 0 < x then PlusInf else MinusInf)
      else round_d (x / y))"
| "ddiv (Finite x) PlusInf = Finite 0"
| "ddiv (Finite x) MinusInf = Finite 0"
| "ddiv PlusInf (Finite y) = (if 0 \<le> y then PlusInf else MinusInf)"
| "ddiv MinusInf (Finite y) = (if 0 \<le> y then MinusInf else PlusInf)"
| "ddiv PlusInf b = NaN"
| "ddiv MinusInf b = NaN"

text \<open>
  A real is a finite double when rounding leaves it as it is.
\<close>

definition is_double :: "real \<Rightarrow> bool" where
  "is_double x \<longleftrightarrow> round_d x = Finite x"

text \<open>
  \<open>std::log\<close> belongs to the C library, not to this repository. It is taken here as the
  correctly rounded natural logarithm, with the special values of the C standard
  (\<open>log(0) = -inf\<close>, \<open>log(x) = NaN\<close> for \<open>x < 0\<close>). It is used in the worked examples
  only, and only through \<open>log(1.0) = 0\<close>, \<open>0 \<le> log(2.0) \<le> 1\<close> and the finiteness of
  \<open>log(2^(-1024))\<close>; the general statements take the logarithm's value as a given.
\<close>

definition std_log :: "double \<Rightarrow> double" where
  "std_log a =
     (case a of
        Finite x \<Rightarrow> (if 0 < x then round_d (ln x) else if x = 0 then MinusInf else NaN)
      | PlusInf \<Rightarrow> PlusInf
      | MinusInf \<Rightarrow> NaN
      | NaN \<Rightarrow> NaN)"

text \<open>
  class Arrhenius over doubles: the members \<open>m_lnA\<close>, \<open>m_n\<close>, \<open>m_temp\<close> and the
  expression of \<open>getLnRate\<close> (RateLaws.h, lines 73 to 75),
  \<open>m_lnA + m_n * lnT - m_temp * invT\<close>, which C++ parses as
  \<open>(m_lnA + (m_n * lnT)) - (m_temp * invT)\<close>; each of the four operations is rounded on
  its own (no contraction into a fused multiply-add).
\<close>

datatype Arrhenius64 = Arrhenius64 double double double

fun Arrhenius64_getLnRate :: "Arrhenius64 \<Rightarrow> double \<Rightarrow> double \<Rightarrow> double" where
  "Arrhenius64_getLnRate (Arrhenius64 m_lnA m_n m_temp) lnT invT =
     dsub (dadd m_lnA (dmul m_n lnT)) (dmul m_temp invT)"

section \<open>Reactions and temperature selectors (RateManager.cpp)\<close>

text \<open>
  The enumeration \<open>ReactionType\<close> is declared in a header that is not among the
  sources. Its enumerators are the nineteen that \<open>SELECT_RATE_LAWS\<close> names in
  RateManager.cpp and \<open>BND_BND_EMISSION\<close>, which the transfer models test for; any
  further enumerator is \<open>OTHER_REACTION_TYPE k\<close>.
\<close>

datatype ReactionType =
    ASSOCIATIVE_IONIZATION | DISSOCIATIVE_RECOMBINATION
  | ASSOCIATIVE_DETACHMENT | DISSOCIATIVE_ATTACHMENT
  | DISSOCIATION_E | RECOMBINATION_E
  | DISSOCIATION_M | RECOMBINATION_M
  | IONIZATION_E | ION_RECOMBINATION_E
  | IONIZATION_M | ION_RECOMBINATION_M
  | ELECTRONIC_ATTACHMENT_M | ELECTRONIC_DETACHMENT_M
  | ELECTRONIC_ATTACHMENT_E | ELECTRONIC_DETACHMENT_E
  | EXCHANGE | EXCITATION_M | EXCITATION_E
  | BND_BND_EMISSION | OTHER_REACTION_TYPE nat

text \<open>
  The polymorphic base class \<open>RateLaw\<close>: a value is one of the four concrete classes,
  and \<open>typeid\<close> names the class of the object behind a \<open>RateLaw\<close> pointer.
\<close>

datatype RateLaw =
    RateLaw_Arrhenius Arrhenius
  | RateLaw_rationalExp rationalExp
  | RateLaw_constRate constRate
  | RateLaw_expRat33 expRat33

datatype type_info = typeid_Arrhenius | typeid_rationalExp | typeid_constRate | typeid_expRat33

fun typeid :: "RateLaw \<Rightarrow> type_info" where
  "typeid (RateLaw_Arrhenius a) = typeid_Arrhenius"
| "typeid (RateLaw_rationalExp r) = typeid_rationalExp"
| "typeid (RateLaw_constRate c) = typeid_constRate"
| "typeid (RateLaw_expRat33 e) = typeid_expRat33"

text \<open>
  class Reaction is declared outside the sources; the manager reads its type, its
  reversibility flag and its rate law, and the transfer models read \<open>reactants()\<close> as a
  list of species indices (\<open>products()\<close> likewise).
\<close>

record Reaction =
  rxn_type :: ReactionType
  isReversible :: bool
  rateLaw :: RateLaw
  reactants :: "nat list"
  products :: "nat list"

text \<open>
  The state model read through \<open>state->T()\<close>, \<open>state->Te()\<close> and \<open>state->Tv()\<close>.
\<close>

record StateModel =
  state_T :: real
  state_Te :: real
  state_Tv :: real

text \<open>
  The three classes made by the macro \<open>TEMPERATURE_SELECTOR\<close>, and their \<open>getT\<close>.
  HOL's \<^const>\<open>sqrt\<close> of a negative number is a negative number, where \<open>std::sqrt\<close>
  gives a NaN.
\<close>

datatype Selector = TSelector | TeSelector | ParkSelector

fun getT :: "Selector \<Rightarrow> StateModel \<Rightarrow> real" where
  "getT TSelector st = state_T st"
| "getT TeSelector st = state_Te st"
| "getT ParkSelector st = sqrt (state_T st * state_Tv st)"

text \<open>
  \<open>RateSelector<reactionType>\<close>: the pair \<open>(ForwardGroup, ReverseGroup)\<close> of selector
  classes; the primary template gives \<open>(TSelector, TSelector)\<close> and
  \<open>SELECT_RATE_LAWS\<close> specialises it.
\<close>

fun RateSelector :: "ReactionType \<Rightarrow> Selector \<times> Selector" where
  "RateSelector ASSOCIATIVE_IONIZATION = (TSelector, TeSelector)"
| "RateSelector DISSOCIATIVE_RECOMBINATION = (TeSelector, TSelector)"
| "RateSelector ASSOCIATIVE_DETACHMENT = (TSelector, TeSelector)"
| "RateSelector DISSOCIATIVE_ATTACHMENT = (TeSelector, TSelector)"
| "RateSelector DISSOCIATION_E = (TeSelector, TeSelector)"
| "RateSelector RECOMBINATION_E = (TeSelector, TeSelector)"
| "RateSelector DISSOCIATION_M = (ParkSelector, TSelector)"
| "RateSelector RECOMBINATION_M = (TSelector, ParkSelector)"
| "RateSelector IONIZATION_E = (TeSelector, TeSelector)"
| "RateSelector ION_RECOMBINATION_E = (TeSelector, TeSelector)"
| "RateSelector IONIZATION_M = (TSelector, TSelector)"
| "RateSelector ION_RECOMBINATION_M = (TSelector, TSelector)"
| "RateSelector ELECTRONIC_ATTACHMENT_M = (TeSelector, TSelector)"
| "RateSelector ELECTRONIC_DETACHMENT_M = (TSelector, TeSelector)"
| "RateSelector ELECTRONIC_ATTACHMENT_E = (TeSelector, TeSelector)"
| "RateSelector ELECTRONIC_DETACHMENT_E = (TeSelector, TeSelector)"
| "RateSelector EXCHANGE = (TSelector, TSelector)"
| "RateSelector EXCITATION_M = (TSelector, TSelector)"
| "RateSelector EXCITATION_E = (TeSelector, TeSelector)"
| "RateSelector BND_BND_EMISSION = (TSelector, TSelector)"
| "RateSelector (OTHER_REACTION_TYPE k) = (TSelector, TSelector)"

definition ForwardGroup :: "ReactionType \<Rightarrow> Selector" where
  "ForwardGroup t = fst (RateSelector t)"

definition ReverseGroup :: "ReactionType \<Rightarrow> Selector" where
  "ReverseGroup t = snd (RateSelector t)"

section \<open>The thermodynamic collaborator\<close>

text \<open>
  Modelled from the spec: class Thermodynamics is declared outside the sources. The
  managers call \<open>state()\<close>, \<open>nSgroups()\<close> and \<open>sumSgroupMembersValues(p_s, p_g)\<close>; the last
  fills the group buffer with the lumped sums of the species values, and is here a
  function from the species values and the old contents of the group buffer to its new
  contents. \<open>speciesGOverRT T s\<close> is the Gibbs energy over \<open>RT\<close> of species \<open>s\<close> at the
  temperature \<open>T\<close>, which the equilibrium correction asks the collaborator for.
\<close>

record Thermodynamics =
  thermo_state :: StateModel
  nSgroups :: nat
  sumSgroupMembersValues :: "(int \<Rightarrow> real) \<Rightarrow> (int \<Rightarrow> real) \<Rightarrow> (int \<Rightarrow> real)"
  speciesGOverRT :: "real \<Rightarrow> nat \<Rightarrow> real"

section \<open>ThirdbodyManager (ThirdBodyManager.h)\<close>

text \<open>
  class PartialThirdbodyEffs: members \<open>m_rxn\<close>, \<open>m_effs\<close>, \<open>m_groupEffs\<close>; an
  efficiency is a \<open>std::pair<int, double>\<close>.
\<close>

datatype PartialThirdbodyEffs = PartialThirdbodyEffs nat "(int \<times> real) list" "(int \<times> real) list"

fun rxn_of :: "PartialThirdbodyEffs \<Rightarrow> nat" where
  "rxn_of (PartialThirdbodyEffs m_rxn m_effs m_groupEffs) = m_rxn"

fun effs_of :: "PartialThirdbodyEffs \<Rightarrow> (int \<times> real) list" where
  "effs_of (PartialThirdbodyEffs m_rxn m_effs m_groupEffs) = m_effs"

fun groupEffs_of :: "PartialThirdbodyEffs \<Rightarrow> (int \<times> real) list" where
  "groupEffs_of (PartialThirdbodyEffs m_rxn m_effs m_groupEffs) = m_groupEffs"

text \<open>
  The caller's arrays are raw pointers: \<open>p_s\<close> and \<open>p_r\<close> are addresses into one
  memory of doubles, so that the two arrays may overlap, and an index is not checked
  against any length. The group buffer \<open>p_g\<close> is the manager's own allocation, which no
  array of the caller overlaps: it is a member, a function from the index to the value.
  The accumulator \<open>sum\<close> of the source is \<open>sum_v\<close>.
\<close>

type_synonym memory = "int \<Rightarrow> real"

fun multiplyEfficiencies ::
  "PartialThirdbodyEffs \<Rightarrow> real \<Rightarrow> memory \<Rightarrow> int \<Rightarrow> (int \<Rightarrow> real) \<Rightarrow> int \<Rightarrow> memory" where
  "multiplyEfficiencies (PartialThirdbodyEffs m_rxn m_effs m_groupEffs) sum_v mem p_s p_g p_r =
     (let sum1 = fold (\<lambda>(first, second) acc. acc + mem (p_s + first) * second) m_effs sum_v;
          sum2 = fold (\<lambda>(first, second) acc. acc + p_g first * second) m_groupEffs sum1
      in mem(p_r + int m_rxn := mem (p_r + int m_rxn) * sum2))"

record ThirdbodyManager =
  m_ns :: nat
  m_offset :: nat
  m_effs :: "PartialThirdbodyEffs list"
  p_g :: "int \<Rightarrow> real"

text \<open>
  The constructor allocates the group buffer and does not initialise it: \<open>fresh\<close> is
  whatever the new buffer holds.
\<close>

definition ThirdbodyManager_ctor :: "nat \<Rightarrow> bool \<Rightarrow> (int \<Rightarrow> real) \<Rightarrow> ThirdbodyManager" where
  "ThirdbodyManager_ctor ns electrons fresh =
     \<lparr>m_ns = ns, m_offset = (if electrons then 1 else 0), m_effs = [], p_g = fresh\<rparr>"

definition ThirdbodyManager_addReaction ::
  "nat \<Rightarrow> (int \<times> real) list \<Rightarrow> (int \<times> real) list \<Rightarrow> ThirdbodyManager \<Rightarrow> ThirdbodyManager" where
  "ThirdbodyManager_addReaction rxn effs gEffs mgr =
     mgr\<lparr>m_effs := m_effs mgr @ [PartialThirdbodyEffs rxn effs gEffs]\<rparr>"

text \<open>
  \<open>multiplyThirdbodies\<close> returns the manager, whose group buffer the collaborator has
  filled, and the caller's memory.
\<close>

definition multiplyThirdbodies ::
  "Thermodynamics \<Rightarrow> ThirdbodyManager \<Rightarrow> memory \<Rightarrow> int \<Rightarrow> int \<Rightarrow> ThirdbodyManager \<times> memory" where
  "multiplyThirdbodies m_thermo mgr mem p_s p_r =
     (let sum_v = 0;
          g = sumSgroupMembersValues m_thermo (\<lambda>i. mem (p_s + i)) (p_g mgr)
      in (mgr\<lparr>p_g := g\<rparr>,
          fold (\<lambda>iter m. multiplyEfficiencies iter sum_v m p_s g p_r) (m_effs mgr) mem))"

section \<open>Rate-law groups\<close>

text \<open>
  Modelled from the spec: RateManager.h, which declares \<open>RateLawGroup1T\<close> and
  \<open>RateLawGroupCollection\<close>, is not among the sources. A group type
  \<open>RateLawGroup1T<Law, Selector>\<close> is the pair of the law's class and the selector. A group
  owns an ordered list of (slot, rate law) entries and the list of (reaction index,
  reaction) pairs registered with it for the equilibrium correction. The collection
  maps group types to groups and makes a group when its type is first used.
\<close>

type_synonym GroupType = "type_info \<times> Selector"

record RateLawGroup =
  m_rates :: "(nat \<times> RateLaw) list"
  m_reacs :: "(nat \<times> Reaction) list"

type_synonym RateLawGroupCollection = "(GroupType \<times> RateLawGroup) list"

fun modify_group ::
  "GroupType \<Rightarrow> (RateLawGroup \<Rightarrow> RateLawGroup) \<Rightarrow> RateLawGroupCollection \<Rightarrow> RateLawGroupCollection" where
  "modify_group k f [] = [(k, f \<lparr>m_rates = [], m_reacs = []\<rparr>)]"
| "modify_group k f ((k', g) # rest) =
     (if k' = k then (k', f g) # rest else (k', g) # modify_group k f rest)"

definition addRateCoefficient ::
  "GroupType \<Rightarrow> nat \<Rightarrow> RateLaw \<Rightarrow> RateLawGroupCollection \<Rightarrow> RateLawGroupCollection" where
  "addRateCoefficient gtype rxn p_rate coll =
     modify_group gtype (\<lambda>g. g\<lparr>m_rates := m_rates g @ [(rxn, p_rate)]\<rparr>) coll"

definition RateLawGroupCollection_addReaction ::
  "GroupType \<Rightarrow> nat \<Rightarrow> Reaction \<Rightarrow> RateLawGroupCollection \<Rightarrow> RateLawGroupCollection" where
  "RateLawGroupCollection_addReaction gtype rxn reaction coll =
     modify_group gtype (\<lambda>g. g\<lparr>m_reacs := m_reacs g @ [(rxn, reaction)]\<rparr>) coll"

text \<open>
  Modelled from the spec: a group evaluates its selector's temperature once and calls
  each member's evaluation function with the scalars it takes (\<open>ln T\<close>, \<open>1 / T\<close>, and
  for the rational exponential law \<open>T\<close> and \<open>T\<^sup>2\<close>), writing the result at the member's
  slot of the output array. A write outside the array, undefined in the source, leaves
  the list as it is; it does not happen for a constructed manager.
\<close>

fun getLnRate :: "RateLaw \<Rightarrow> real \<Rightarrow> real" where
  "getLnRate (RateLaw_Arrhenius a) T = Arrhenius_getLnRate a (ln T) (1 / T)"
| "getLnRate (RateLaw_rationalExp r) T = rationalExp_getLnRate r (ln T) (1 / T) T (T * T)"
| "getLnRate (RateLaw_constRate c) T = constRate_getLnRate c"
| "getLnRate (RateLaw_expRat33 e) T = expRat33_getLnRate e T"

definition lnk :: "GroupType \<Rightarrow> RateLawGroup \<Rightarrow> StateModel \<Rightarrow> real list \<Rightarrow> real list" where
  "lnk gtype g st p_lnk =
     (let T = getT (snd gtype) st
      in fold (\<lambda>(slot, rate) out. out[slot := getLnRate rate T]) (m_rates g) p_lnk)"

definition logOfRateCoefficients ::
  "RateLawGroupCollection \<Rightarrow> StateModel \<Rightarrow> real list \<Rightarrow> real list" where
  "logOfRateCoefficients coll st p_lnk = fold (\<lambda>(gtype, g) out. lnk gtype g st out) coll p_lnk"

text \<open>
  Modelled from the spec: the equilibrium correction. For each group the collaborator
  writes the species Gibbs energies over \<open>RT\<close> at the group's temperature into the
  Gibbs region (offset \<open>p_gibbs\<close>, \<open>ns\<close> entries); each reaction registered with the group
  then has \<open>ln Keq\<close> subtracted at its slot of the array at offset \<open>p_r\<close>. \<open>ln Keq\<close> is
  minus the stoichiometric sum of the Gibbs energies: each reactant counts \<open>-1\<close>, each
  product \<open>+1\<close>.
\<close>

definition lnKeq :: "(nat \<Rightarrow> real) \<Rightarrow> Reaction \<Rightarrow> real" where
  "lnKeq gibbs reaction =
     - ((\<Sum>s \<leftarrow> products reaction. gibbs s) - (\<Sum>s \<leftarrow> reactants reaction. gibbs s))"

definition write_gibbs :: "Thermodynamics \<Rightarrow> real \<Rightarrow> nat \<Rightarrow> nat \<Rightarrow> real list \<Rightarrow> real list" where
  "write_gibbs thermo T ns p_gibbs block =
     fold (\<lambda>s out. out[p_gibbs + s := speciesGOverRT thermo T s]) [0..<ns] block"

definition group_subtractLnKeq :: "RateLawGroup \<Rightarrow> nat \<Rightarrow> nat \<Rightarrow> real list \<Rightarrow> real list" where
  "group_subtractLnKeq g p_gibbs p_r block =
     fold (\<lambda>(rxn, reaction) out.
             out[p_r + rxn := out ! (p_r + rxn) - lnKeq (\<lambda>s. out ! (p_gibbs + s)) reaction])
       (m_reacs g) block"

definition subtractLnKeq ::
  "RateLawGroupCollection \<Rightarrow> Thermodynamics \<Rightarrow> nat \<Rightarrow> nat \<Rightarrow> nat \<Rightarrow> real list \<Rightarrow> real list" where
  "subtractLnKeq coll thermo ns p_gibbs p_r block =
     fold (\<lambda>(gtype, g) out.
             group_subtractLnKeq g p_gibbs p_r
               (write_gibbs thermo (getT (snd gtype) (thermo_state thermo)) ns p_gibbs out))
       coll block"

section \<open>RateManager (RateManager.cpp)\<close>

text \<open>
  The members of the class. \<open>mp_lnkf\<close> is the one allocated block, \<open>None\<close> while the
  pointer is \<open>NULL\<close>; \<open>mp_lnkb\<close> and \<open>mp_gibbs\<close> point into the same block, at the
  offsets \<open>m_nr\<close> and \<open>2 * m_nr\<close>.
\<close>

record RateManager =
  m_ns :: nat
  m_nr :: nat
  m_rate_groups :: RateLawGroupCollection
  m_to_copy :: "nat list"
  m_irr :: "nat list"
  mp_lnkf :: "real list option"

definition mp_lnkb :: "RateManager \<Rightarrow> nat" where
  "mp_lnkb m = m_nr m"

definition mp_gibbs :: "RateManager \<Rightarrow> nat" where
  "mp_gibbs m = mp_lnkb m + m_nr m"

datatype InvalidInputError = InvalidInputError string type_info string

text \<open>
  \<open>addRate<ForwardGroup, ReverseGroup>\<close>; \<open>is_same\<close> is equality of the two group types.
\<close>

definition addRate :: "GroupType \<Rightarrow> GroupType \<Rightarrow> nat \<Rightarrow> Reaction \<Rightarrow> RateManager \<Rightarrow> RateManager" where
  "addRate FWD REV rxn reaction m =
     (let m1 = m\<lparr>m_rate_groups := addRateCoefficient FWD rxn (rateLaw reaction) (m_rate_groups m)\<rparr>
      in if isReversible reaction then
           (let m2 = (if FWD = REV then m1\<lparr>m_to_copy := m_to_copy m1 @ [rxn]\<rparr>
                      else m1\<lparr>m_rate_groups :=
                             addRateCoefficient REV (rxn + m_nr m1) (rateLaw reaction) (m_rate_groups m1)\<rparr>)
            in m2\<lparr>m_rate_groups :=
                    RateLawGroupCollection_addReaction REV rxn reaction (m_rate_groups m2)\<rparr>)
         else m1\<lparr>m_irr := m_irr m1 @ [rxn]\<rparr>)"

text \<open>
  \<open>selectRate<N>\<close> descends from \<open>MAX_REACTION_TYPES - 1\<close> to the enumerator equal to the
  reaction's type and there instantiates \<open>RateSelector\<close> at it (at \<open>0\<close> without a test);
  the enumeration's numbering is not in the sources, so the descent is its result:
  the selectors of the reaction's own type. A rate law of none of the three classes
  adds nothing.
\<close>

definition selectRate :: "nat \<Rightarrow> Reaction \<Rightarrow> RateManager \<Rightarrow> RateManager" where
  "selectRate rxn reaction m =
     (let p_rate = rateLaw reaction;
          F = ForwardGroup (rxn_type reaction);
          R = ReverseGroup (rxn_type reaction)
      in if typeid p_rate = typeid_Arrhenius then
           addRate (typeid_Arrhenius, F) (typeid_Arrhenius, R) rxn reaction m
         else if typeid p_rate = typeid_rationalExp then
           addRate (typeid_rationalExp, F) (typeid_rationalExp, R) rxn reaction m
         else if typeid p_rate = typeid_constRate then
           addRate (typeid_constRate, F) (typeid_constRate, R) rxn reaction m
         else m)"

definition RateManager_addReaction ::
  "nat \<Rightarrow> Reaction \<Rightarrow> RateManager \<Rightarrow> InvalidInputError + RateManager" where
  "RateManager_addReaction rxn reaction m =
     (let p_rate = rateLaw reaction
      in if typeid p_rate = typeid_Arrhenius
            \<or> typeid p_rate = typeid_constRate
            \<or> typeid p_rate = typeid_rationalExp then
           Inr (selectRate rxn reaction m)
         else
           Inl (InvalidInputError ''rate law'' (typeid p_rate)
                  ''Rate law is not implemented in RateManager.''))"

text \<open>
  The constructor. The member initialisers, then the loop \<open>addReaction(i, reactions[i])\<close>
  from index \<open>i\<close> on over the reactions still to add, then the allocation. An exception
  leaves the loop and the constructor at once: the result is the members as they are
  at that point and the exception.
\<close>

definition RateManager_init :: "nat \<Rightarrow> Reaction list \<Rightarrow> RateManager" where
  "RateManager_init ns reactions =
     \<lparr>m_ns = ns, m_nr = length reactions, m_rate_groups = [], m_to_copy = [], m_irr = [],
      mp_lnkf = None\<rparr>"

fun addReactions :: "nat \<Rightarrow> Reaction list \<Rightarrow> RateManager \<Rightarrow> RateManager \<times> InvalidInputError option" where
  "addReactions i [] m = (m, None)"
| "addReactions i (reaction # rest) m =
     (case RateManager_addReaction i reaction m of
        Inl e \<Rightarrow> (m, Some e)
      | Inr m' \<Rightarrow> addReactions (Suc i) rest m')"

definition RateManager_ctor :: "nat \<Rightarrow> Reaction list \<Rightarrow> RateManager \<times> InvalidInputError option" where
  "RateManager_ctor ns reactions =
     (case addReactions 0 reactions (RateManager_init ns reactions) of
        (m, Some e) \<Rightarrow> (m, Some e)
      | (m, None) \<Rightarrow>
          (let block_size = 2 * m_nr m + ns
           in (m\<lparr>mp_lnkf := Some (replicate block_size 0)\<rparr>, None)))"

text \<open>
  \<open>update\<close>, one definition for each of its three steps on the block. Without a block
  (a \<open>NULL\<close> pointer, which a constructed manager never has) there is no result.
\<close>

definition update_evaluate :: "Thermodynamics \<Rightarrow> RateManager \<Rightarrow> real list \<Rightarrow> real list" where
  "update_evaluate thermo m block =
     logOfRateCoefficients (m_rate_groups m) (thermo_state thermo) block"

definition update_copy :: "RateManager \<Rightarrow> real list \<Rightarrow> real list" where
  "update_copy m block =
     fold (\<lambda>index out. out[mp_lnkb m + index := out ! index]) (m_to_copy m) block"

definition update_subtract :: "Thermodynamics \<Rightarrow> RateManager \<Rightarrow> real list \<Rightarrow> real list" where
  "update_subtract thermo m block =
     subtractLnKeq (m_rate_groups m) thermo (m_ns m) (mp_gibbs m) (mp_lnkb m) block"

definition RateManager_update :: "Thermodynamics \<Rightarrow> RateManager \<Rightarrow> RateManager option" where
  "RateManager_update thermo m =
     (case mp_lnkf m of
        None \<Rightarrow> None
      | Some block \<Rightarrow>
          Some (m\<lparr>mp_lnkf :=
                    Some (update_subtract thermo m (update_copy m (update_evaluate thermo m block)))\<rparr>))"

text \<open>
  Modelled from the spec: the accessors of RateManager.h, which is not among the
  sources. The two arrays a caller reads have \<open>m_nr\<close> entries each, from \<open>mp_lnkf\<close> and
  from \<open>mp_lnkb\<close>.
\<close>

definition lnkf :: "RateManager \<Rightarrow> real list" where
  "lnkf m = (case mp_lnkf m of None \<Rightarrow> [] | Some block \<Rightarrow> take (m_nr m) block)"

definition lnkb :: "RateManager \<Rightarrow> real list" where
  "lnkb m = (case mp_lnkf m of None \<Rightarrow> [] | Some block \<Rightarrow> take (m_nr m) (drop (mp_lnkb m) block))"

section \<open>Definitions for the statements\<close>

text \<open>
  The weighted sum in the words of the specification: it starts at \<open>0\<close> and adds
  \<open>concentration s * weight\<close> over the species efficiencies and
  \<open>groupConcentration g * weight\<close> over the group efficiencies.
\<close>

definition weightedSum :: "(int \<Rightarrow> real) \<Rightarrow> (int \<Rightarrow> real) \<Rightarrow> PartialThirdbodyEffs \<Rightarrow> real" where
  "weightedSum concentration groupConcentration e =
     0 + (\<Sum>(s, weight) \<leftarrow> effs_of e. concentration s * weight)
       + (\<Sum>(g, weight) \<leftarrow> groupEffs_of e. groupConcentration g * weight)"

text \<open>
  All entries of a collection, each with the type of its group: the (slot, rate law)
  entries, the reactions registered for the equilibrium correction, and the slots of
  the former.
\<close>

definition all_rates :: "RateLawGroupCollection \<Rightarrow> (GroupType \<times> nat \<times> RateLaw) list" where
  "all_rates coll =
     concat (map (\<lambda>(gtype, g). map (\<lambda>(slot, rate). (gtype, slot, rate)) (m_rates g)) coll)"

definition all_reacs :: "RateLawGroupCollection \<Rightarrow> (GroupType \<times> nat \<times> Reaction) list" where
  "all_reacs coll =
     concat (map (\<lambda>(gtype, g). map (\<lambda>(rxn, reaction). (gtype, rxn, reaction)) (m_reacs g)) coll)"

definition rate_slots :: "RateLawGroupCollection \<Rightarrow> nat list" where
  "rate_slots coll = map (\<lambda>(gtype, slot, rate). slot) (all_rates coll)"

abbreviation slot_of :: "GroupType \<times> nat \<times> 'a \<Rightarrow> nat" where
  "slot_of \<equiv> (\<lambda>(gtype, slot, x). slot)"

text \<open>
  The group types \<open>FWD\<close> and \<open>REV\<close> that \<open>selectRate\<close> hands to \<open>addRate\<close> for a reaction,
  and what the specification's construction steps call for: for the reaction at index
  \<open>i\<close> among \<open>nr\<close>, a forward entry at slot \<open>i\<close>; if reversible, its index in the copy list
  when the two group types are the same, else a reverse entry at slot \<open>i + nr\<close>, and
  its registration with the reverse group; if irreversible, its index in the unused
  list. \<open>per_reaction\<close> collects such lists over the reactions from index \<open>i\<close> on.
\<close>

definition FWD_of :: "Reaction \<Rightarrow> GroupType" where
  "FWD_of reaction = (typeid (rateLaw reaction), ForwardGroup (rxn_type reaction))"

definition REV_of :: "Reaction \<Rightarrow> GroupType" where
  "REV_of reaction = (typeid (rateLaw reaction), ReverseGroup (rxn_type reaction))"

definition rates_of :: "nat \<Rightarrow> nat \<Rightarrow> Reaction \<Rightarrow> (GroupType \<times> nat \<times> RateLaw) list" where
  "rates_of nr i reaction =
     (FWD_of reaction, i, rateLaw reaction)
       # (if isReversible reaction \<and> FWD_of reaction \<noteq> REV_of reaction
          then [(REV_of reaction, i + nr, rateLaw reaction)] else [])"

definition reacs_of :: "nat \<Rightarrow> Reaction \<Rightarrow> (GroupType \<times> nat \<times> Reaction) list" where
  "reacs_of i reaction = (if isReversible reaction then [(REV_of reaction, i, reaction)] else [])"

definition copies_of :: "nat \<Rightarrow> Reaction \<Rightarrow> nat list" where
  "copies_of i reaction =
     (if isReversible reaction \<and> FWD_of reaction = REV_of reaction then [i] else [])"

definition irr_of :: "nat \<Rightarrow> Reaction \<Rightarrow> nat list" where
  "irr_of i reaction = (if isReversible reaction then [] else [i])"

fun per_reaction :: "(nat \<Rightarrow> Reaction \<Rightarrow> 'a list) \<Rightarrow> nat \<Rightarrow> Reaction list \<Rightarrow> 'a list" where
  "per_reaction f i [] = []"
| "per_reaction f i (reaction # rest) = f i reaction @ per_reaction f (Suc i) rest"

text \<open>A reaction whose rate law is of one of the three classes \<open>addReaction\<close> accepts.\<close>

definition implemented :: "Reaction \<Rightarrow> bool" where
  "implemented reaction \<longleftrightarrow>
     typeid (rateLaw reaction) \<in> {typeid_Arrhenius, typeid_constRate, typeid_rationalExp}"

text \<open>
  Every species index of every reaction is below the species count, so that the
  equilibrium correction reads inside the Gibbs region.
\<close>

definition species_in_range :: "nat \<Rightarrow> Reaction list \<Rightarrow> bool" where
  "species_in_range ns rs \<longleftrightarrow>
     (\<forall>r \<in> set rs. \<forall>s \<in> set (reactants r) \<union> set (products r). s < ns)"

text \<open>The block that \<open>update\<close> leaves, from the block it finds.\<close>

definition update_block :: "Thermodynamics \<Rightarrow> RateManager \<Rightarrow> real list \<Rightarrow> real list" where
  "update_block thermo m block =
     update_subtract thermo m (update_copy m (update_evaluate thermo m block))"

text \<open>
  Concrete inputs. Three reactions over two species: a reversible exchange (both
  selectors \<open>T\<close>), a reversible heavy-particle dissociation (forward Park, reverse \<open>T\<close>)
  and an irreversible exchange; a second list whose last reaction has a rational cubic
  law; a collaborator at \<open>T = 4\<close>, \<open>Te = 2\<close>, \<open>Tv = 9\<close> with Gibbs energies \<open>T + s\<close> and no
  lumped groups; a memory holding the concentrations \<open>[1, 2]\<close> at the addresses \<open>0, 1\<close> and the
  rate of progress \<open>5\<close> at the address \<open>2\<close>; and the third-body manager with one reaction,
  index \<open>0\<close>, species efficiencies \<open>1\<close> and \<open>1/2\<close>.
\<close>

definition ex_reactions :: "Reaction list" where
  "ex_reactions = [
     \<lparr>rxn_type = EXCHANGE, isReversible = True, rateLaw = RateLaw_Arrhenius (Arrhenius 1 0 8),
      reactants = [0], products = [1]\<rparr>,
     \<lparr>rxn_type = DISSOCIATION_M, isReversible = True, rateLaw = RateLaw_Arrhenius (Arrhenius 2 0 12),
      reactants = [0], products = [1, 1]\<rparr>,
     \<lparr>rxn_type = EXCHANGE, isReversible = False, rateLaw = RateLaw_constRate (constRate 3),
      reactants = [1], products = [0]\<rparr>]"

definition bad_reactions :: "Reaction list" where
  "bad_reactions = [
     \<lparr>rxn_type = EXCHANGE, isReversible = True, rateLaw = RateLaw_Arrhenius (Arrhenius 1 0 0),
      reactants = [0], products = [1]\<rparr>,
     \<lparr>rxn_type = EXCHANGE, isReversible = False, rateLaw = RateLaw_expRat33 (expRat33 1 0 0 0 1 0 0),
      reactants = [1], products = [0]\<rparr>]"

definition ex_thermo :: Thermodynamics where
  "ex_thermo =
     \<lparr>thermo_state = \<lparr>state_T = 4, state_Te = 2, state_Tv = 9\<rparr>, nSgroups = 0,
      sumSgroupMembersValues = (\<lambda>c g. g), speciesGOverRT = (\<lambda>T s. T + real s)\<rparr>"

definition example_memory :: memory where
  "example_memory = (\<lambda>a. 0)(0 := 1, 1 := 2, 2 := 5)"

definition example_manager :: ThirdbodyManager where
  "example_manager =
     ThirdbodyManager_addReaction 0 [(0, 1), (1, 1 / 2)] [] (ThirdbodyManager_ctor 2 False (\<lambda>i. 0))"

section \<open>Properties of the rate laws\<close>

subsection \<open>Rounding to the nearest double\<close>

text \<open>
  Rounding is monotone, leaves the powers of two of the format and its own results as
  they are, and takes every real within half a unit in the last place of \<open>1\<close> to \<open>1\<close>.
\<close>

lemma rne_of_int: "rne (of_int k) = k"
  by (simp add: rne_def)

lemma rne_bounds: "\<lfloor>x\<rfloor> \<le> rne x \<and> rne x \<le> \<lfloor>x\<rfloor> + 1"
  by (simp add: rne_def)

lemma rne_mono:
  assumes "x \<le> y"
  shows "rne x \<le> rne y"
proof (cases "\<lfloor>x\<rfloor> = \<lfloor>y\<rfloor>")
  case True
  then show ?thesis
    using assms by (auto simp: rne_def)
next
  case False
  then have "\<lfloor>x\<rfloor> + 1 \<le> \<lfloor>y\<rfloor>"
    using floor_mono [OF assms] by linarith
  then show ?thesis
    using rne_bounds [of x] rne_bounds [of y] by linarith
qed

lemma rne_near:
  assumes "of_int k - 1 / 2 < z" and "z < of_int k + 1 / 2"
  shows "rne z = k"
proof (cases "of_int k \<le> z")
  case True
  then have "\<lfloor>z\<rfloor> = k" using assms(2) by (simp add: floor_eq_iff)
  then show ?thesis using assms(2) by (simp add: rne_def)
next
  case False
  then have f: "\<lfloor>z\<rfloor> = k - 1" using assms(1) by (simp add: floor_eq_iff)
  have "1 / 2 < z - of_int \<lfloor>z\<rfloor>" using assms(1) by (simp add: f)
  then show ?thesis by (simp add: rne_def f)
qed

lemma floor_log2:
  assumes "0 < x"
  shows "\<lfloor>log 2 x\<rfloor> = k \<longleftrightarrow> 2 powi k \<le> x \<and> x < 2 powi (k + 1)"
proof -
  have "(2::real) powr of_int k = 2 powi k" "(2::real) powr (of_int k + 1) = 2 powi (k + 1)"
    using powr_real_of_int' [of 2 k] powr_real_of_int' [of 2 "k + 1"] by simp_all
  then show ?thesis
    using floor_log_eq_powr_iff [of x 2 k] assms by simp
qed

lemma expo_lower:
  assumes "0 < x" and "- 1022 < expo x"
  shows "2 powi expo x \<le> x"
proof -
  have e: "expo x = \<lfloor>log 2 x\<rfloor>"
    using assms(2) by (simp add: expo_def max_def split: if_splits)
  show ?thesis
    using floor_log2 [OF assms(1), of "\<lfloor>log 2 x\<rfloor>"] by (simp add: e)
qed

lemma expo_upper:
  assumes "0 < x"
  shows "x < 2 powi (expo x + 1)"
proof -
  have "x < 2 powi (\<lfloor>log 2 x\<rfloor> + 1)"
    using floor_log2 [OF assms, of "\<lfloor>log 2 x\<rfloor>"] by simp
  also have "\<dots> \<le> 2 powi (expo x + 1)"
    by (rule power_int_increasing) (simp_all add: expo_def)
  finally show ?thesis .
qed

lemma expo_mono:
  assumes "0 < x" and "x \<le> y"
  shows "expo x \<le> expo y"
proof -
  have "log 2 x \<le> log 2 y" using assms by simp
  then have "\<lfloor>log 2 x\<rfloor> \<le> \<lfloor>log 2 y\<rfloor>" by (rule floor_mono)
  then show ?thesis by (simp add: expo_def)
qed

lemma expo_eq:
  assumes "2 powi e \<le> x" and "x < 2 powi (e + 1)" and "- 1022 \<le> e"
  shows "expo x = e"
proof -
  have "(0::real) < 2 powi e" by simp
  then have pos: "0 < x" using assms(1) by linarith
  have "\<lfloor>log 2 x\<rfloor> = e"
    using floor_log2 [OF pos, of e] assms by simp
  then show ?thesis using assms(3) by (simp add: expo_def)
qed

lemma expo_subnormal:
  assumes "0 < x" and "x < 2 powi (- 1022)"
  shows "expo x = - 1022"
proof -
  have "\<not> - 1022 < expo x"
  proof
    assume lt: "- 1022 < expo x"
    have "(2::real) powi (- 1022) \<le> 2 powi expo x"
      by (rule power_int_increasing) (use lt in simp_all)
    also have "\<dots> \<le> x" by (rule expo_lower [OF assms(1) lt])
    finally show False using assms(2) by simp
  qed
  moreover have "- 1022 \<le> expo x" by (simp add: expo_def)
  ultimately show ?thesis by simp
qed

lemma ulp_pos: "0 < ulp x"
  by (simp add: ulp_def)

lemma round_pos_nonneg:
  assumes "0 \<le> x"
  shows "0 \<le> round_pos x"
proof -
  have "0 \<le> x / ulp x" using assms ulp_pos [of x] by simp
  then have "rne 0 \<le> rne (x / ulp x)" by (rule rne_mono)
  then have "0 \<le> rne (x / ulp x)" using rne_of_int [of 0] by simp
  then show ?thesis using ulp_pos [of x] by (simp add: round_pos_def)
qed

lemma two53: "(2::real) powi (e + 1) / 2 powi (e - 52) = of_int (2 ^ 53)"
proof -
  have "(2::real) powi ((e - 52) + 53) = 2 powi (e - 52) * 2 powi 53"
    by (rule power_int_add) simp
  moreover have "(e - 52) + 53 = e + 1" by simp
  ultimately have "(2::real) powi (e + 1) = 2 powi (e - 52) * 2 powi 53" by simp
  then show ?thesis by simp
qed

lemma two52: "(2::real) powi e / 2 powi (e - 52) = of_int (2 ^ 52)"
proof -
  have "(2::real) powi ((e - 52) + 52) = 2 powi (e - 52) * 2 powi 52"
    by (rule power_int_add) simp
  then have "(2::real) powi e = 2 powi (e - 52) * 2 powi 52" by simp
  then show ?thesis by simp
qed

lemma round_pos_upper:
  assumes "0 < x"
  shows "round_pos x \<le> 2 powi (expo x + 1)"
proof -
  have "x / ulp x \<le> 2 powi (expo x + 1) / ulp x"
    using expo_upper [OF assms] ulp_pos [of x] by (simp add: divide_right_mono)
  also have "\<dots> = of_int (2 ^ 53)"
    unfolding ulp_def by (rule two53)
  finally have "rne (x / ulp x) \<le> rne (of_int (2 ^ 53))" by (rule rne_mono)
  then have "rne (x / ulp x) \<le> 2 ^ 53" by (simp only: rne_of_int)
  then have "of_int (rne (x / ulp x)) * ulp x \<le> of_int (2 ^ 53) * ulp x"
    using ulp_pos [of x] by (simp add: mult_right_mono)
  also have "of_int (2 ^ 53) * ulp x = 2 powi (expo x + 1)"
    using two53 [of "expo x"] ulp_pos [of x] by (simp add: ulp_def field_simps)
  finally show ?thesis by (simp add: round_pos_def)
qed

lemma round_pos_lower:
  assumes "0 < x" and "- 1022 < expo x"
  shows "2 powi expo x \<le> round_pos x"
proof -
  have "2 powi expo x / ulp x \<le> x / ulp x"
    using expo_lower [OF assms] ulp_pos [of x] by (simp add: divide_right_mono)
  moreover have "2 powi expo x / ulp x = of_int (2 ^ 52)"
    unfolding ulp_def by (rule two52)
  ultimately have "rne (of_int (2 ^ 52)) \<le> rne (x / ulp x)"
    using rne_mono by simp
  then have "2 ^ 52 \<le> rne (x / ulp x)" by (simp only: rne_of_int)
  then have "of_int (2 ^ 52) * ulp x \<le> of_int (rne (x / ulp x)) * ulp x"
    using ulp_pos [of x] by (simp add: mult_right_mono)
  moreover have "of_int (2 ^ 52) * ulp x = 2 powi expo x"
    using two52 [of "expo x"] ulp_pos [of x] by (simp add: ulp_def field_simps)
  ultimately show ?thesis by (simp add: round_pos_def)
qed

lemma round_pos_mono:
  assumes "0 < x" and "x \<le> y"
  shows "round_pos x \<le> round_pos y"
proof (cases "expo x = expo y")
  case True
  then have u: "ulp x = ulp y" by (simp add: ulp_def)
  have "x / ulp y \<le> y / ulp y"
    using assms(2) ulp_pos [of y] by (simp add: divide_right_mono)
  then have "rne (x / ulp y) \<le> rne (y / ulp y)" by (rule rne_mono)
  then show ?thesis
    using ulp_pos [of y] by (simp add: round_pos_def u mult_right_mono)
next
  case False
  have y: "0 < y" using assms by simp
  have lt: "expo x < expo y"
    using expo_mono [OF assms] False by simp
  moreover have "- 1022 \<le> expo x" by (simp add: expo_def)
  ultimately have "- 1022 < expo y" by simp
  have "round_pos x \<le> 2 powi (expo x + 1)"
    by (rule round_pos_upper [OF assms(1)])
  also have "\<dots> \<le> 2 powi expo y"
    by (rule power_int_increasing) (use lt in simp_all)
  also have "\<dots> \<le> round_pos y"
    by (rule round_pos_lower [OF y \<open>- 1022 < expo y\<close>])
  finally show ?thesis .
qed

lemma rnd64_mono:
  assumes "x \<le> y"
  shows "rnd64 x \<le> rnd64 y"
proof -
  consider "0 < x" | "x = 0" | "x < 0" "y < 0" | "x < 0" "0 \<le> y" by linarith
  then show ?thesis
  proof cases
    case 1
    then show ?thesis using assms round_pos_mono [OF 1 assms] by (simp add: rnd64_def)
  next
    case 2
    then show ?thesis using assms round_pos_nonneg [of y] by (simp add: rnd64_def)
  next
    case 3
    then have "0 < - y" "- y \<le> - x" using assms by simp_all
    then have "round_pos (- y) \<le> round_pos (- x)" by (rule round_pos_mono)
    then show ?thesis using 3 by (simp add: rnd64_def)
  next
    case 4
    have "0 \<le> round_pos (- x)" using 4(1) by (intro round_pos_nonneg) simp
    moreover have "0 \<le> rnd64 y" using 4(2) round_pos_nonneg [of y] by (simp add: rnd64_def)
    ultimately show ?thesis using 4(1) by (simp add: rnd64_def)
  qed
qed

lemma rnd64_power2:
  assumes "- 1074 \<le> k"
  shows "rnd64 (2 powi k) = 2 powi k"
proof -
  let ?e = "max k (- 1022)"
  have e: "expo (2 powi k) = ?e"
  proof (cases "- 1022 \<le> k")
    case True
    have "(2::real) powi k < 2 powi (k + 1)"
      by (rule power_int_strict_increasing) simp_all
    then have "expo (2 powi k) = k"
      by (intro expo_eq) (use True in simp_all)
    then show ?thesis using True by simp
  next
    case False
    then have "(2::real) powi k < 2 powi (- 1022)"
      by (intro power_int_strict_increasing) simp_all
    then have "expo (2 powi k) = - 1022"
      by (intro expo_subnormal) simp_all
    then show ?thesis using False by simp
  qed
  have "0 \<le> k - (?e - 52)" using assms by simp
  then obtain n where n: "k - (?e - 52) = int n"
    using nonneg_int_cases by blast
  have "(2::real) powi ((?e - 52) + int n) = 2 powi (?e - 52) * 2 powi (int n)"
    by (rule power_int_add) simp
  moreover have "(?e - 52) + int n = k" using n by simp
  ultimately have split: "(2::real) powi k = 2 powi (?e - 52) * 2 ^ n" by simp
  have u: "ulp (2 powi k) = 2 powi (?e - 52)"
    by (simp only: ulp_def e)
  have "(2::real) powi k / 2 powi (?e - 52) = of_int (2 ^ n)"
    by (subst split) simp
  then have "rne (2 powi k / ulp (2 powi k)) = 2 ^ n"
    by (simp only: u rne_of_int)
  then have "round_pos (2 powi k) = of_int (2 ^ n) * 2 powi (?e - 52)"
    by (simp only: round_pos_def u)
  also have "\<dots> = 2 powi (?e - 52) * 2 ^ n"
    by simp
  also have "\<dots> = 2 powi k"
    by (rule split [symmetric])
  finally show ?thesis by (simp add: rnd64_def)
qed

lemma rnd64_0: "rnd64 0 = 0"
  by (simp add: rnd64_def)

lemma rnd64_1: "rnd64 1 = 1"
  using rnd64_power2 [of 0] by simp

lemma rnd64_nonneg: "0 \<le> x \<Longrightarrow> 0 \<le> rnd64 x"
  using rnd64_mono [of 0 x] by (simp add: rnd64_0)

lemma rnd64_unit:
  assumes "0 \<le> x" and "x \<le> 1"
  shows "0 \<le> rnd64 x" and "rnd64 x \<le> 1"
  using rnd64_mono [OF assms(1)] rnd64_mono [OF assms(2)] by (simp_all add: rnd64_0 rnd64_1)

lemma rnd64_near_one_above:
  assumes "1 \<le> x" and "x < 1 + 2 powi (- 53)"
  shows "rnd64 x = 1"
proof -
  have x2: "x < 2 powi (0 + 1)"
  proof -
    have "(2::real) powi (- 53) \<le> 1" by (simp add: power_int_minus field_simps)
    then show ?thesis using assms(2) by simp
  qed
  have e: "expo x = 0"
    using assms(1) x2 by (intro expo_eq) simp_all
  have u: "ulp x = 2 powi (- 52)" by (simp add: ulp_def e)
  have q: "x / ulp x = x * 2 ^ 52" by (simp add: u power_int_minus)
  have "rne (x * 2 ^ 52) = 2 ^ 52"
  proof (rule rne_near)
    show "of_int (2 ^ 52) - 1 / 2 < x * 2 ^ 52" using assms(1) by simp
    have "x * 2 ^ 52 < (1 + 2 powi (- 53)) * 2 ^ 52"
      using assms(2) by (intro mult_strict_right_mono) simp_all
    also have "\<dots> = of_int (2 ^ 52) + 1 / 2"
      by (simp add: power_int_minus field_simps)
    finally show "x * 2 ^ 52 < of_int (2 ^ 52) + 1 / 2" .
  qed
  then have "round_pos x = 1" by (simp add: round_pos_def q) (simp add: u power_int_minus)
  then show ?thesis using assms(1) by (simp add: rnd64_def)
qed

lemma rnd64_near_one_below:
  assumes "1 - 2 powi (- 54) < x" and "x < 1"
  shows "rnd64 x = 1"
proof -
  have half: "(2::real) powi (- 1) \<le> x"
  proof -
    have "(2::real) powi (- 54) \<le> 1 / 2" by (simp add: power_int_minus field_simps)
    then show ?thesis using assms(1) by (simp add: power_int_minus)
  qed
  have pos: "0 < x" using half by (simp add: power_int_minus)
  have e: "expo x = - 1"
    using half assms(2) by (intro expo_eq) simp_all
  have u: "ulp x = 2 powi (- 53)" by (simp add: ulp_def e)
  have q: "x / ulp x = x * 2 ^ 53" by (simp add: u power_int_minus)
  have "rne (x * 2 ^ 53) = 2 ^ 53"
  proof (rule rne_near)
    have "(1 - 2 powi (- 54)) * 2 ^ 53 < x * 2 ^ 53"
      using assms(1) by (intro mult_strict_right_mono) simp_all
    moreover have "(1 - 2 powi (- 54)) * 2 ^ 53 = (of_int (2 ^ 53) - 1 / 2 :: real)"
      by (simp add: power_int_minus field_simps)
    ultimately show "of_int (2 ^ 53) - 1 / 2 < x * 2 ^ 53" by simp
    show "x * 2 ^ 53 < of_int (2 ^ 53) + 1 / 2" using assms(2) by simp
  qed
  then have "round_pos x = 1" by (simp add: round_pos_def q) (simp add: u power_int_minus)
  then show ?thesis using pos by (simp add: rnd64_def)
qed

lemma rne_le_2_53:
  assumes "0 < x"
  shows "rne (x / ulp x) \<le> 2 ^ 53"
proof -
  have "x / ulp x \<le> 2 powi (expo x + 1) / ulp x"
    using expo_upper [OF assms] ulp_pos [of x] by (simp add: divide_right_mono)
  also have "\<dots> = of_int (2 ^ 53)"
    unfolding ulp_def by (rule two53)
  finally have "rne (x / ulp x) \<le> rne (of_int (2 ^ 53))" by (rule rne_mono)
  then show ?thesis by (simp only: rne_of_int)
qed

lemma rne_ge_2_52:
  assumes "0 < x" and "- 1022 < expo x"
  shows "2 ^ 52 \<le> rne (x / ulp x)"
proof -
  have "2 powi expo x / ulp x \<le> x / ulp x"
    using expo_lower [OF assms] ulp_pos [of x] by (simp add: divide_right_mono)
  moreover have "2 powi expo x / ulp x = of_int (2 ^ 52)"
    unfolding ulp_def by (rule two52)
  ultimately have "rne (of_int (2 ^ 52)) \<le> rne (x / ulp x)"
    using rne_mono by simp
  then show ?thesis by (simp only: rne_of_int)
qed

lemma round_pos_fix:
  assumes "expo (of_int m * 2 powi (e - 52)) = e"
  shows "round_pos (of_int m * 2 powi (e - 52)) = of_int m * 2 powi (e - 52)"
proof -
  have u: "ulp (of_int m * 2 powi (e - 52)) = 2 powi (e - 52)"
    by (simp only: ulp_def assms)
  have "of_int m * 2 powi (e - 52) / 2 powi (e - 52) = (of_int m :: real)" by simp
  then have "rne (of_int m * 2 powi (e - 52) / ulp (of_int m * 2 powi (e - 52))) = m"
    by (simp only: u rne_of_int)
  then show ?thesis by (simp only: round_pos_def u)
qed

lemma round_pos_idem:
  assumes "0 < x"
  shows "round_pos x = 0 \<or> round_pos (round_pos x) = round_pos x"
proof -
  define e where "e = expo x"
  define m where "m = rne (x / ulp x)"
  have r: "round_pos x = of_int m * 2 powi (e - 52)"
    by (simp add: round_pos_def m_def e_def ulp_def)
  have e_ge: "- 1022 \<le> e" by (simp add: e_def expo_def)
  have m_le: "m \<le> 2 ^ 53" unfolding m_def by (rule rne_le_2_53 [OF assms])
  have m_ge: "0 \<le> m"
  proof -
    have "0 \<le> x / ulp x" using assms ulp_pos [of x] by simp
    then have "rne 0 \<le> rne (x / ulp x)" by (rule rne_mono)
    then show ?thesis using rne_of_int [of 0] by (simp add: m_def)
  qed
  have top: "of_int (2 ^ 53) * 2 powi (e - 52) = (2::real) powi (e + 1)"
    using two53 [of e] by (simp add: field_simps)
  have mid: "of_int (2 ^ 52) * 2 powi (e - 52) = (2::real) powi e"
    using two52 [of e] by (simp add: field_simps)
  consider "m = 0" | "m = 2 ^ 53" | "0 < m" "m < 2 ^ 53" using m_le m_ge by linarith
  then show ?thesis
  proof cases
    case 1
    then show ?thesis by (simp add: r)
  next
    case 2
    have r2: "round_pos x = 2 powi (e + 1)" using top by (simp only: r 2)
    have "rnd64 (2 powi (e + 1)) = 2 powi (e + 1)"
      by (rule rnd64_power2) (use e_ge in simp)
    then have "round_pos (2 powi (e + 1)) = 2 powi (e + 1)" by (simp add: rnd64_def)
    then show ?thesis by (simp add: r2)
  next
    case 3
    have lt: "of_int m * 2 powi (e - 52) < (2::real) powi (e + 1)"
    proof -
      have "(of_int m :: real) < of_int (2 ^ 53)" using 3(2) by (simp only: of_int_less_iff)
      then have "of_int m * 2 powi (e - 52) < of_int (2 ^ 53) * (2::real) powi (e - 52)"
        by (intro mult_strict_right_mono) simp_all
      then show ?thesis by (simp only: top)
    qed
    have pos: "0 < of_int m * (2::real) powi (e - 52)" using 3(1) by simp
    have "expo (of_int m * 2 powi (e - 52)) = e"
    proof (cases "2 ^ 52 \<le> m")
      case True
      then have "(of_int (2 ^ 52) :: real) \<le> of_int m" by (simp only: of_int_le_iff)
      then have "of_int (2 ^ 52) * 2 powi (e - 52) \<le> of_int m * (2::real) powi (e - 52)"
        by (intro mult_right_mono) simp_all
      then have "2 powi e \<le> of_int m * (2::real) powi (e - 52)" by (simp only: mid)
      then show ?thesis using lt e_ge by (rule expo_eq)
    next
      case False
      then have e1022: "e = - 1022" using rne_ge_2_52 [OF assms] e_ge
        by (fold m_def e_def) linarith
      have "(of_int m :: real) < of_int (2 ^ 52)" using False by (simp only: of_int_less_iff not_le)
      then have "of_int m * 2 powi (e - 52) < of_int (2 ^ 52) * (2::real) powi (e - 52)"
        by (intro mult_strict_right_mono) simp_all
      then have "of_int m * 2 powi (e - 52) < (2::real) powi (- 1022)"
        by (simp only: mid) (simp only: e1022)
      then have "expo (of_int m * 2 powi (e - 52)) = - 1022"
        using pos by (intro expo_subnormal)
      then show ?thesis by (simp only: e1022)
    qed
    then have "round_pos (of_int m * 2 powi (e - 52)) = of_int m * 2 powi (e - 52)"
      by (rule round_pos_fix)
    then show ?thesis by (simp add: r)
  qed
qed

lemma rnd64_idem: "rnd64 (rnd64 x) = rnd64 x"
proof -
  consider "x = 0" | "0 < x" | "x < 0" by linarith
  then show ?thesis
  proof cases
    case 1
    then show ?thesis by (simp add: rnd64_def)
  next
    case 2
    have nn: "0 \<le> round_pos x" using 2 by (intro round_pos_nonneg) simp
    show ?thesis using round_pos_idem [OF 2] nn 2 by (auto simp: rnd64_def)
  next
    case 3
    then have p: "0 < - x" by simp
    have nn: "0 \<le> round_pos (- x)" using p by (intro round_pos_nonneg) simp
    show ?thesis using round_pos_idem [OF p] nn 3 by (auto simp: rnd64_def)
  qed
qed

lemma rnd64_of_nat_pos:
  assumes "0 < m" and "m \<le> 2 ^ 53"
  shows "round_pos (of_int m) = of_int m"
proof (cases "m = 2 ^ 53")
  case True
  have "rnd64 (2 powi 53) = 2 powi 53" by (rule rnd64_power2) simp
  then have "round_pos (2 powi 53) = 2 powi 53" by (simp add: rnd64_def)
  moreover have "(of_int m :: real) = 2 powi 53" using True by simp
  ultimately show ?thesis by (simp only:)
next
  case False
  then have lt: "m < 2 ^ 53" using assms(2) by simp
  define x :: real where "x = of_int m"
  define e where "e = expo x"
  have pos: "0 < x" using assms(1) by (simp add: x_def)
  have x_lt: "x < 2 powi 53"
  proof -
    have "(of_int m :: real) < of_int (2 ^ 53)" using lt by (simp only: of_int_less_iff)
    then show ?thesis by (simp add: x_def)
  qed
  have e_ge: "- 1022 \<le> e" by (simp add: e_def expo_def)
  have e_le: "e \<le> 52"
  proof (rule ccontr)
    assume "\<not> e \<le> 52"
    then have big: "53 \<le> e" by simp
    then have "- 1022 < expo x" by (simp add: e_def)
    then have "2 powi e \<le> x" unfolding e_def by (rule expo_lower [OF pos])
    moreover have "(2::real) powi 53 \<le> 2 powi e"
      by (rule power_int_increasing) (use big in simp_all)
    ultimately show False using x_lt by linarith
  qed
  then obtain d where d: "52 - e = int d"
    using nonneg_int_cases [of "52 - e"] by auto
  have "(2::real) powi ((e - 52) + int d) = 2 powi (e - 52) * 2 powi (int d)"
    by (rule power_int_add) simp
  moreover have "(e - 52) + int d = 0" using d by simp
  ultimately have inv: "2 powi (e - 52) * (2::real) ^ d = 1" by simp
  have "x = of_int (m * 2 ^ d) * 2 powi (e - 52)"
  proof -
    have "of_int (m * 2 ^ d) * 2 powi (e - 52) = x * (2 powi (e - 52) * (2::real) ^ d)"
      by (simp add: x_def)
    then show ?thesis by (simp only: inv mult_1_right)
  qed
  then have xm: "x = of_int (m * 2 ^ d) * 2 powi (e - 52)" .
  have "expo (of_int (m * 2 ^ d) * 2 powi (e - 52)) = e"
    using xm e_def by simp
  then have "round_pos (of_int (m * 2 ^ d) * 2 powi (e - 52)) = of_int (m * 2 ^ d) * 2 powi (e - 52)"
    by (rule round_pos_fix)
  then have "round_pos x = x" using xm by simp
  then show ?thesis by (simp only: x_def)
qed

lemma rnd64_of_int:
  assumes "\<bar>m\<bar> \<le> 2 ^ 53"
  shows "rnd64 (of_int m) = of_int m"
proof -
  consider "m = 0" | "0 < m" | "m < 0" by linarith
  then show ?thesis
  proof cases
    case 1
    then show ?thesis by (simp add: rnd64_def)
  next
    case 2
    then show ?thesis using rnd64_of_nat_pos [of m] assms by (simp add: rnd64_def)
  next
    case 3
    then have "round_pos (of_int (- m)) = of_int (- m)"
      using assms by (intro rnd64_of_nat_pos) simp_all
    then show ?thesis using 3 by (simp add: rnd64_def)
  qed
qed

subsection \<open>Results of the operations on doubles\<close>

lemma DBL_MAX_bounds: "2 powi 1023 \<le> DBL_MAX" "DBL_MAX < 2 powi 1024"
proof -
  have "(1::real) \<le> 2 - 2 powi (- 52)" by simp
  then have "1 * 2 powi 1023 \<le> (2 - 2 powi (- 52)) * (2::real) powi 1023"
    by (intro mult_right_mono) simp_all
  then show "2 powi 1023 \<le> DBL_MAX" by (simp add: DBL_MAX_def)
  have "(2 - 2 powi (- 52)) * (2::real) powi 1023 < 2 * 2 powi 1023"
    by (intro mult_strict_right_mono) simp_all
  also have "\<dots> = 2 powi (1 + 1023)"
    by (subst power_int_add) simp_all
  finally show "DBL_MAX < 2 powi 1024" by (simp add: DBL_MAX_def)
qed

lemma DBL_MAX_pos: "0 < DBL_MAX"
proof -
  have "(0::real) < 2 powi 1023" by simp
  then show ?thesis using DBL_MAX_bounds(1) by linarith
qed

lemma one_le_2_1023: "(1::real) \<le> 2 powi 1023"
  by (rule one_le_power_int) simp_all

lemma round_d_0: "round_d 0 = Finite 0"
  using DBL_MAX_pos by (simp add: round_d_def rnd64_0)

lemma round_d_Finite:
  assumes "round_d x = Finite y"
  shows "y = rnd64 x"
  using assms by (simp add: round_d_def split: if_splits)

lemma round_d_bounded:
  assumes "- (2 powi 1023) \<le> x" and "x \<le> 2 powi 1023"
  shows "round_d x = Finite (rnd64 x)"
proof -
  have "rnd64 x \<le> rnd64 (2 powi 1023)" using assms(2) by (rule rnd64_mono)
  then have up: "rnd64 x \<le> DBL_MAX"
    using rnd64_power2 [of 1023] DBL_MAX_bounds(1) by simp
  have "rnd64 (- (2 powi 1023)) \<le> rnd64 x" using assms(1) by (rule rnd64_mono)
  moreover have "rnd64 (- (2 powi 1023)) = - (2 powi 1023)"
    using rnd64_power2 [of 1023] by (simp add: rnd64_def)
  ultimately have "- DBL_MAX \<le> rnd64 x"
    using DBL_MAX_bounds(1) by linarith
  then show ?thesis using up by (simp add: round_d_def)
qed

lemma round_d_overflow:
  assumes "2 powi 1024 \<le> x"
  shows "round_d x = PlusInf"
proof -
  have "rnd64 (2 powi 1024) \<le> rnd64 x" using assms by (rule rnd64_mono)
  then have "2 powi 1024 \<le> rnd64 x" using rnd64_power2 [of 1024] by simp
  then show ?thesis using DBL_MAX_bounds(2) by (simp add: round_d_def)
qed

lemma round_d_unit:
  assumes "0 \<le> x" and "x \<le> 1"
  shows "round_d x = Finite (rnd64 x)"
proof (rule round_d_bounded)
  show "- (2 powi 1023) \<le> x" using assms(1) one_le_2_1023 by linarith
  show "x \<le> 2 powi 1023" using assms(2) one_le_2_1023 by linarith
qed

lemma round_d_power2:
  assumes "- 1074 \<le> k" and "k \<le> 1023"
  shows "round_d (2 powi k) = Finite (2 powi k)"
proof -
  have "(2::real) powi k \<le> 2 powi 1023"
    by (rule power_int_increasing) (use assms(2) in simp_all)
  moreover have "- (2 powi 1023) \<le> (2::real) powi k"
  proof -
    have "(0::real) \<le> 2 powi k" "(0::real) \<le> 2 powi 1023" by simp_all
    then show ?thesis by linarith
  qed
  ultimately have "round_d (2 powi k) = Finite (rnd64 (2 powi k))"
    by (intro round_d_bounded)
  then show ?thesis by (simp only: rnd64_power2 [OF assms(1)])
qed

lemma round_d_1: "round_d 1 = Finite 1"
  using round_d_power2 [of 0] by simp

lemma is_double_rnd64:
  assumes "- (2 powi 1023) \<le> x" and "x \<le> 2 powi 1023"
  shows "is_double (rnd64 x)"
proof -
  have r: "round_d x = Finite (rnd64 x)" using assms by (rule round_d_bounded)
  then have "\<not> DBL_MAX < rnd64 x" "\<not> rnd64 x < - DBL_MAX"
    by (simp_all add: round_d_def split: if_splits)
  then show ?thesis by (simp add: is_double_def round_d_def rnd64_idem)
qed

lemma ddiv_pos:
  assumes "0 < T"
  shows "ddiv (Finite 1) (Finite T) = PlusInf
       \<or> ddiv (Finite 1) (Finite T) = Finite (rnd64 (1 / T))"
proof -
  have "0 \<le> rnd64 (1 / T)" using assms by (intro rnd64_nonneg) simp
  then have "\<not> rnd64 (1 / T) < - DBL_MAX" using DBL_MAX_pos by linarith
  then show ?thesis using assms by (simp add: round_d_def)
qed

lemma ddiv_finite:
  assumes "2 powi (- 1023) \<le> T"
  shows "ddiv (Finite 1) (Finite T) = Finite (rnd64 (1 / T))"
proof -
  have p: "(0::real) < 2 powi (- 1023)" by simp
  then have pos: "0 < T" using assms by linarith
  have "1 / T \<le> 1 / 2 powi (- 1023)"
    using assms p by (intro divide_left_mono) simp_all
  also have "\<dots> = 2 powi 1023" by (simp add: power_int_minus)
  finally have up: "1 / T \<le> 2 powi 1023" .
  have "(0::real) \<le> 2 powi 1023" by simp
  moreover have "0 \<le> 1 / T" using pos by simp
  ultimately have lo: "- (2 powi 1023) \<le> 1 / T" by linarith
  show ?thesis using pos round_d_bounded [OF lo up] by simp
qed

lemma ddiv_overflow:
  assumes "0 < T" and "T \<le> 2 powi (- 1024)"
  shows "ddiv (Finite 1) (Finite T) = PlusInf"
proof -
  have "1 / 2 powi (- 1024) \<le> 1 / T"
    using assms by (intro divide_left_mono) simp_all
  moreover have "1 / 2 powi (- 1024) = (2::real) powi 1024" by (simp add: power_int_minus)
  ultimately have "2 powi 1024 \<le> 1 / T" by simp
  then have "round_d (1 / T) = PlusInf" by (rule round_d_overflow)
  then show ?thesis using assms(1) by simp
qed

lemma dadd_Finite:
  assumes "dadd a b = Finite c"
  shows "\<exists>x y. a = Finite x \<and> b = Finite y \<and> c = rnd64 (x + y)"
  using assms by (cases a; cases b) (simp_all add: round_d_Finite)

lemma dneg_Finite:
  assumes "dneg b = Finite c"
  shows "b = Finite (- c)"
  using assms by (cases b) auto

lemma dsub_Finite:
  assumes "dsub a b = Finite c"
  shows "\<exists>x y. a = Finite x \<and> b = Finite y \<and> c = rnd64 (x - y)"
proof -
  obtain x y where "a = Finite x" "dneg b = Finite y" "c = rnd64 (x + y)"
    using dadd_Finite assms unfolding dsub_def by blast
  moreover from this have "b = Finite (- y)" using dneg_Finite by blast
  ultimately show ?thesis by simp
qed

lemma dmul_Finite:
  assumes "dmul a b = Finite c"
  shows "\<exists>x y. a = Finite x \<and> b = Finite y \<and> c = rnd64 (x * y)"
  using assms by (cases a; cases b) (simp_all add: round_d_Finite split: if_splits)

lemma round_d_near_one:
  assumes "1 - 2 powi (- 54) < x" and "x < 1 + 2 powi (- 53)"
  shows "round_d x = Finite 1"
proof -
  have r: "rnd64 x = 1"
  proof (cases "1 \<le> x")
    case True
    then show ?thesis using assms(2) by (rule rnd64_near_one_above)
  next
    case False
    then have "x < 1" by simp
    with assms(1) show ?thesis by (rule rnd64_near_one_below)
  qed
  have "(2::real) powi (- 54) \<le> 1" "(2::real) powi (- 53) \<le> 1"
    by (simp_all add: power_int_minus field_simps)
  then have "0 \<le> x" "x \<le> 2" using assms by linarith+
  moreover have "(2::real) \<le> 2 powi 1023" using power_int_increasing [of 1 1023 "2::real"] by simp
  moreover have "(0::real) \<le> 2 powi 1023" by simp
  ultimately have "- (2 powi 1023) \<le> x" "x \<le> 2 powi 1023" by linarith+
  then have "round_d x = Finite (rnd64 x)" by (rule round_d_bounded)
  then show ?thesis by (simp only: r)
qed

lemma round_d_minus_1: "round_d (- 1) = Finite (- 1)"
proof -
  have "rnd64 (- 1) = - 1" using rnd64_1 by (simp add: rnd64_def)
  moreover have "- (2 powi 1023) \<le> (- 1::real)" "(- 1::real) \<le> 2 powi 1023"
    using one_le_2_1023 by linarith+
  ultimately show ?thesis using round_d_bounded [of "- 1"] by simp
qed

lemma round_d_of_int:
  assumes "\<bar>m\<bar> \<le> 2 ^ 53"
  shows "round_d (of_int m) = Finite (of_int m)"
proof -
  have "\<bar>of_int m :: real\<bar> \<le> of_int (2 ^ 53)"
    using assms by (simp only: of_int_abs [symmetric] of_int_le_iff)
  then have "\<bar>of_int m :: real\<bar> \<le> 2 powi 53" by simp
  moreover have "(2::real) powi 53 \<le> 2 powi 1023"
    by (rule power_int_increasing) simp_all
  ultimately have "- (2 powi 1023) \<le> (of_int m :: real)" "(of_int m :: real) \<le> 2 powi 1023"
    by linarith+
  then have "round_d (of_int m) = Finite (rnd64 (of_int m))" by (rule round_d_bounded)
  then show ?thesis by (simp only: rnd64_of_int [OF assms])
qed

lemma ln2_unit: "0 \<le> ln (2::real)" "ln (2::real) \<le> 1"
  using ln_le_minus_one [of "2::real"] by simp_all

lemma std_log_1: "std_log (Finite 1) = Finite 0"
  by (simp add: std_log_def round_d_0)

lemma std_log_2: "std_log (Finite 2) = Finite (rnd64 (ln 2))"
  using round_d_unit [OF ln2_unit] by (simp add: std_log_def)

lemma ln_tiny: "ln ((2::real) powi (- 1024)) = - (1024 * ln 2)"
proof -
  have "(2::real) powi (- 1024) = inverse (2 ^ 1024)" by (simp add: power_int_minus)
  then have "ln ((2::real) powi (- 1024)) = ln (inverse (2 ^ 1024))" by (simp only:)
  also have "\<dots> = - ln ((2::real) ^ 1024)" by (rule ln_inverse)
  also have "ln ((2::real) ^ 1024) = 1024 * ln 2" using ln_realpow [of "2::real" 1024] by simp
  finally show ?thesis .
qed

lemma std_log_tiny:
  "std_log (Finite (2 powi (- 1024))) = Finite (rnd64 (ln (2 powi (- 1024))))"
proof -
  have "(1024::real) \<le> 2 ^ 1023" by simp
  then have big: "(1024::real) \<le> 2 powi 1023" by simp
  have "- 1024 \<le> ln ((2::real) powi (- 1024))" "ln ((2::real) powi (- 1024)) \<le> 0"
    using ln2_unit unfolding ln_tiny by linarith+
  then have "- (2 powi 1023) \<le> ln ((2::real) powi (- 1024))"
    "ln ((2::real) powi (- 1024)) \<le> 2 powi 1023"
    using big by linarith+
  then have "round_d (ln (2 powi (- 1024))) = Finite (rnd64 (ln (2 powi (- 1024))))"
    by (rule round_d_bounded)
  then show ?thesis by (simp add: std_log_def)
qed

lemma ddiv_1_1: "ddiv (Finite 1) (Finite 1) = Finite 1"
  by (simp add: round_d_1)

lemma ddiv_1_2: "ddiv (Finite 1) (Finite 2) = Finite (2 powi (- 1))"
proof -
  have h: "(1::real) / 2 = 2 powi (- 1)" by (simp add: power_int_minus)
  have "ddiv (Finite 1) (Finite 2) = round_d (1 / 2)" by simp
  also have "\<dots> = round_d (2 powi (- 1))" by (simp only: h)
  also have "\<dots> = Finite (2 powi (- 1))" by (rule round_d_power2) simp_all
  finally show ?thesis .
qed

subsection \<open>The Arrhenius law over doubles\<close>

lemma Arrhenius64_getLnRate_rounded:
  assumes "Arrhenius64_getLnRate (Arrhenius64 (Finite a) (Finite n) (Finite t)) (Finite l)
             (Finite r) = Finite k"
  shows "k = rnd64 (rnd64 (a + rnd64 (n * l)) - rnd64 (t * r))"
proof -
  from assms have "dsub (dadd (Finite a) (dmul (Finite n) (Finite l)))
      (dmul (Finite t) (Finite r)) = Finite k" by simp
  then obtain x y where x: "dadd (Finite a) (dmul (Finite n) (Finite l)) = Finite x"
    and y: "dmul (Finite t) (Finite r) = Finite y"
    and k: "k = rnd64 (x - y)"
    using dsub_Finite by blast
  obtain a' p where "Finite a = Finite a'" and p: "dmul (Finite n) (Finite l) = Finite p"
    and x': "x = rnd64 (a' + p)"
    using dadd_Finite [OF x] by blast
  then have x'': "x = rnd64 (a + p)" by simp
  have p': "p = rnd64 (n * l)" using p by (simp add: round_d_Finite)
  have y': "y = rnd64 (t * r)" using y by (simp add: round_d_Finite)
  show ?thesis by (simp add: k x'' p' y')
qed

lemma Arrhenius64_getLnRate_Finite:
  assumes "Arrhenius64_getLnRate (Arrhenius64 (Finite a) (Finite n) (Finite t)) (Finite l)
             (ddiv (Finite 1) (Finite T)) = Finite k"
    and "0 < T"
  shows "k = rnd64 (rnd64 (a + rnd64 (n * l)) - rnd64 (t * rnd64 (1 / T)))"
proof -
  from assms(1) have "dsub (dadd (Finite a) (dmul (Finite n) (Finite l)))
      (dmul (Finite t) (ddiv (Finite 1) (Finite T))) = Finite k" by simp
  then obtain x y where x: "dadd (Finite a) (dmul (Finite n) (Finite l)) = Finite x"
    and y: "dmul (Finite t) (ddiv (Finite 1) (Finite T)) = Finite y"
    and k: "k = rnd64 (x - y)"
    using dsub_Finite by blast
  obtain a' p where "Finite a = Finite a'" and p: "dmul (Finite n) (Finite l) = Finite p"
    and x': "x = rnd64 (a' + p)"
    using dadd_Finite [OF x] by blast
  then have x'': "x = rnd64 (a + p)" by simp
  have p': "p = rnd64 (n * l)" using p by (simp add: round_d_Finite)
  obtain t' r where "Finite t = Finite t'" and r: "ddiv (Finite 1) (Finite T) = Finite r"
    and y': "y = rnd64 (t' * r)"
    using dmul_Finite [OF y] by blast
  then have y'': "y = rnd64 (t * r)" by simp
  have "r = rnd64 (1 / T)" using r ddiv_pos [OF assms(2)] by simp
  then show ?thesis by (simp add: k x'' p' y'')
qed

lemma Arrhenius64_zero_law:
  assumes "is_double lnA"
  shows "Arrhenius64_getLnRate (Arrhenius64 (Finite lnA) (Finite 0) (Finite 0)) (Finite l) (Finite r)
       = Finite lnA"
  using assms by (simp add: dsub_def round_d_0 is_double_def)

lemma Arrhenius64_zero_law_inf:
  "Arrhenius64_getLnRate (Arrhenius64 m_lnA (Finite 0) (Finite 0)) lnT PlusInf = NaN"
proof -
  have "dsub x NaN = NaN" for x by (cases x) (simp_all add: dsub_def)
  then show ?thesis by simp
qed

lemma ln_1e10_bounds: "- (2 powi 1023) \<le> ln ((10::real) ^ 10)" "ln ((10::real) ^ 10) \<le> 2 powi 1023"
proof -
  have "(0::real) \<le> ln (10 ^ 10)" by simp
  moreover have "(0::real) \<le> 2 powi 1023" by simp
  ultimately show "- (2 powi 1023) \<le> ln ((10::real) ^ 10)" by linarith
  have "ln ((10::real) ^ 10) \<le> 10 ^ 10 - 1" by (rule ln_le_minus_one) simp
  also have "\<dots> \<le> 2 ^ 1023" by simp
  also have "\<dots> = 2 powi 1023" by simp
  finally show "ln ((10::real) ^ 10) \<le> 2 powi 1023" .
qed

lemma ex_value_lnk:
  "Arrhenius64_getLnRate (Arrhenius64 (Finite 3) (Finite 2) (Finite 5)) (Finite 7) (Finite 11)
     = Finite (- 38)"
proof -
  have a: "dmul (Finite 2) (Finite 7) = Finite 14"
    using round_d_of_int [of 14] by simp
  have b: "dadd (Finite 3) (Finite 14) = Finite 17"
    using round_d_of_int [of 17] by simp
  have c: "dmul (Finite 5) (Finite 11) = Finite 55"
    using round_d_of_int [of 55] by simp
  have d: "dsub (Finite 17) (Finite 55) = Finite (- 38)"
    using round_d_of_int [of "- 38"] by (simp add: dsub_def)
  show ?thesis by (simp only: Arrhenius64_getLnRate.simps a b c d)
qed

lemma ex_flat_lnk_1:
  "Arrhenius64_getLnRate (Arrhenius64 (Finite 1) (Finite (2 powi (- 60))) (Finite (2 powi (- 60))))
     (Finite 0) (Finite 1) = Finite 1"
proof -
  have a: "dmul (Finite (2 powi (- 60))) (Finite 0) = Finite 0" by (simp add: round_d_0)
  have b: "dadd (Finite 1) (Finite 0) = Finite 1" by (simp add: round_d_1)
  have c: "dmul (Finite (2 powi (- 60))) (Finite 1) = Finite (2 powi (- 60))"
    using round_d_power2 [of "- 60"] by simp
  have "(2::real) powi (- 60) < 2 powi (- 54)" by (rule power_int_strict_increasing) simp_all
  moreover have "(0::real) < 2 powi (- 60)" "(0::real) < 2 powi (- 53)" by simp_all
  ultimately have "1 - 2 powi (- 54) < 1 + - ((2::real) powi (- 60))"
    "1 + - ((2::real) powi (- 60)) < 1 + 2 powi (- 53)" by linarith+
  then have "round_d (1 + - (2 powi (- 60))) = Finite 1" by (rule round_d_near_one)
  then have d: "dsub (Finite 1) (Finite (2 powi (- 60))) = Finite 1" by (simp add: dsub_def)
  show ?thesis by (simp only: Arrhenius64_getLnRate.simps a b c d)
qed

lemma ex_flat_lnk_2:
  "Arrhenius64_getLnRate (Arrhenius64 (Finite 1) (Finite (2 powi (- 60))) (Finite (2 powi (- 60))))
     (Finite (rnd64 (ln 2))) (Finite (2 powi (- 1))) = Finite 1"
proof -
  define l where "l = rnd64 (ln 2)"
  have l: "0 \<le> l" "l \<le> 1" unfolding l_def by (rule rnd64_unit [OF ln2_unit])+
  have q: "0 \<le> 2 powi (- 60) * l" "2 powi (- 60) * l \<le> 2 powi (- 60)"
    using l by (simp_all add: mult_left_le)
  have "(2::real) powi (- 60) \<le> 1" by (simp add: power_int_minus field_simps)
  then have q1: "2 powi (- 60) * l \<le> 1" using q(2) by linarith
  define p where "p = rnd64 (2 powi (- 60) * l)"
  have a: "dmul (Finite (2 powi (- 60))) (Finite l) = Finite p"
    using round_d_unit [OF q(1) q1] by (simp add: p_def)
  have p: "0 \<le> p" "p \<le> 2 powi (- 60)"
    using rnd64_nonneg [OF q(1)] rnd64_mono [OF q(2)] rnd64_power2 [of "- 60"]
    by (simp_all add: p_def)
  have "(2::real) powi (- 60) < 2 powi (- 53)" by (rule power_int_strict_increasing) simp_all
  moreover have "(0::real) < 2 powi (- 54)" by simp
  ultimately have "1 - 2 powi (- 54) < 1 + p" "1 + p < 1 + 2 powi (- 53)"
    using p by linarith+
  then have "round_d (1 + p) = Finite 1" by (rule round_d_near_one)
  then have b: "dadd (Finite 1) (Finite p) = Finite 1" by simp
  have "(2::real) powi (- 60 + - 1) = 2 powi (- 60) * 2 powi (- 1)"
    by (rule power_int_add) simp
  then have m: "(2::real) powi (- 60) * 2 powi (- 1) = 2 powi (- 61)" by simp
  have c: "dmul (Finite (2 powi (- 60))) (Finite (2 powi (- 1))) = Finite (2 powi (- 61))"
    using round_d_power2 [of "- 61"] by (simp add: m)
  have "(2::real) powi (- 61) < 2 powi (- 54)" by (rule power_int_strict_increasing) simp_all
  moreover have "(0::real) < 2 powi (- 61)" "(0::real) < 2 powi (- 53)" by simp_all
  ultimately have "1 - 2 powi (- 54) < 1 + - ((2::real) powi (- 61))"
    "1 + - ((2::real) powi (- 61)) < 1 + 2 powi (- 53)" by linarith+
  then have "round_d (1 + - (2 powi (- 61))) = Finite 1" by (rule round_d_near_one)
  then have d: "dsub (Finite 1) (Finite (2 powi (- 61))) = Finite 1" by (simp add: dsub_def)
  show ?thesis by (simp only: Arrhenius64_getLnRate.simps a b c d flip: l_def)
qed

lemma ex_mono_lnk_1:
  "Arrhenius64_getLnRate (Arrhenius64 (Finite 0) (Finite 1) (Finite 1)) (Finite 0) (Finite 1)
     = Finite (- 1)"
  by (simp add: dsub_def round_d_0 round_d_1 round_d_minus_1)

lemma ex_mono_lnk_2:
  "Arrhenius64_getLnRate (Arrhenius64 (Finite 0) (Finite 1) (Finite 1))
     (Finite (rnd64 (ln 2))) (Finite (2 powi (- 1)))
     = Finite (rnd64 (rnd64 (ln 2) - 2 powi (- 1)))"
proof -
  define l where "l = rnd64 (ln 2)"
  have l: "0 \<le> l" "l \<le> 1" unfolding l_def by (rule rnd64_unit [OF ln2_unit])+
  have ll: "rnd64 l = l" unfolding l_def by (rule rnd64_idem)
  have rl: "round_d l = Finite l" using round_d_unit [OF l] by (simp only: ll)
  have a: "dmul (Finite 1) (Finite l) = Finite l" using rl by simp
  have b: "dadd (Finite 0) (Finite l) = Finite l" using rl by simp
  have c: "dmul (Finite 1) (Finite (2 powi (- 1))) = Finite (2 powi (- 1))"
    using round_d_power2 [of "- 1"] by simp
  have h: "(2::real) powi (- 1) = 1 / 2" by (simp add: power_int_minus)
  have "- (2 powi 1023) \<le> l + - (2 powi (- 1))" "l + - (2 powi (- 1)) \<le> 2 powi 1023"
    using l one_le_2_1023 unfolding h by linarith+
  then have "round_d (l + - (2 powi (- 1))) = Finite (rnd64 (l + - (2 powi (- 1))))"
    by (rule round_d_bounded)
  then have d: "dsub (Finite l) (Finite (2 powi (- 1))) = Finite (rnd64 (l - 2 powi (- 1)))"
    by (simp add: dsub_def)
  show ?thesis by (simp only: Arrhenius64_getLnRate.simps a b c d flip: l_def)
qed

text \<open>
  Claim C6, amended. \<open>Arrhenius::getLnRate\<close> returns \<open>m_lnA + m_n * lnT - m_temp * invT\<close>
  evaluated in double arithmetic, the two products, the sum and the difference each
  rounded: a finite result on finite arguments is
  \<open>rnd (rnd (ln A + rnd (n * lnT)) - rnd (Ta * invT))\<close>, where \<open>rnd\<close> rounds to the
  nearest double. With \<open>ln A\<close> a finite double (such as \<open>ln 1e10\<close>), \<open>n = 0\<close> and activation
  temperature \<open>0\<close>, the evaluation at \<open>T > 0\<close> with a finite \<open>lnT\<close> and \<open>invT = 1.0 / T\<close>
  returns \<open>ln A\<close> exactly if \<open>1.0 / T\<close> is finite, and NaN if \<open>1.0 / T\<close> is infinite, since
  then \<open>m_temp * invT\<close> is \<open>0 * inf\<close>. The quotient is finite for every
  \<open>T \<ge> 2^(-1023)\<close>, which includes every normal double, and infinite for every
  \<open>0 < T \<le> 2^(-1024)\<close>.
\<close>

theorem Arrhenius64_getLnRate_value:
  assumes "0 < T" and "is_double lnA"
  shows "Arrhenius64_getLnRate (Arrhenius64 m_lnA m_n m_temp) lnT invT
           = dsub (dadd m_lnA (dmul m_n lnT)) (dmul m_temp invT)
       \<and> (Arrhenius64_getLnRate (Arrhenius64 (Finite a) (Finite n) (Finite Ta)) (Finite x) (Finite y)
             = Finite k
           \<longrightarrow> k = rnd64 (rnd64 (a + rnd64 (n * x)) - rnd64 (Ta * y)))
       \<and> Arrhenius64_getLnRate (Arrhenius64 (Finite lnA) (Finite 0) (Finite 0)) (Finite l)
             (ddiv (Finite 1) (Finite T))
           = (if ddiv (Finite 1) (Finite T) = PlusInf then NaN else Finite lnA)
       \<and> (2 powi (- 1023) \<le> T \<longrightarrow> ddiv (Finite 1) (Finite T) \<noteq> PlusInf)
       \<and> (T \<le> 2 powi (- 1024) \<longrightarrow> ddiv (Finite 1) (Finite T) = PlusInf)"
proof (intro conjI impI)
  show "Arrhenius64_getLnRate (Arrhenius64 m_lnA m_n m_temp) lnT invT
           = dsub (dadd m_lnA (dmul m_n lnT)) (dmul m_temp invT)" by simp
  show "k = rnd64 (rnd64 (a + rnd64 (n * x)) - rnd64 (Ta * y))"
    if "Arrhenius64_getLnRate (Arrhenius64 (Finite a) (Finite n) (Finite Ta)) (Finite x) (Finite y)
          = Finite k"
    using that by (rule Arrhenius64_getLnRate_rounded)
  show "Arrhenius64_getLnRate (Arrhenius64 (Finite lnA) (Finite 0) (Finite 0)) (Finite l)
             (ddiv (Finite 1) (Finite T))
           = (if ddiv (Finite 1) (Finite T) = PlusInf then NaN else Finite lnA)"
  proof (cases "ddiv (Finite 1) (Finite T) = PlusInf")
    case True
    then show ?thesis by (simp add: Arrhenius64_zero_law_inf del: Arrhenius64_getLnRate.simps)
  next
    case False
    then have "ddiv (Finite 1) (Finite T) = Finite (rnd64 (1 / T))"
      using ddiv_pos [OF assms(1)] by blast
    then show ?thesis by (simp only: Arrhenius64_zero_law [OF assms(2)]) simp
  qed
  show "ddiv (Finite 1) (Finite T) \<noteq> PlusInf" if "2 powi (- 1023) \<le> T"
    using ddiv_finite [OF that] by simp
  show "ddiv (Finite 1) (Finite T) = PlusInf" if "T \<le> 2 powi (- 1024)"
    using assms(1) that by (rule ddiv_overflow)
qed

theorem Arrhenius64_getLnRate_value_witness:
  "Arrhenius64_getLnRate (Arrhenius64 (Finite 3) (Finite 2) (Finite 5)) (Finite 7) (Finite 11)
       = dsub (dadd (Finite 3) (dmul (Finite 2) (Finite 7))) (dmul (Finite 5) (Finite 11))
   \<and> Arrhenius64_getLnRate (Arrhenius64 (Finite 3) (Finite 2) (Finite 5)) (Finite 7) (Finite 11)
       = Finite (- 38)
   \<and> - 38 = rnd64 (rnd64 (3 + rnd64 (2 * 7)) - rnd64 (5 * 11))
   \<and> Arrhenius64_getLnRate (Arrhenius64 (Finite (rnd64 (ln (10 ^ 10)))) (Finite 0) (Finite 0))
        (std_log (Finite 1)) (ddiv (Finite 1) (Finite 1))
       = Finite (rnd64 (ln (10 ^ 10)))
   \<and> ddiv (Finite 1) (Finite 1) \<noteq> PlusInf
   \<and> Arrhenius64_getLnRate (Arrhenius64 (Finite (rnd64 (ln (10 ^ 10)))) (Finite 0) (Finite 0))
        (std_log (Finite (2 powi (- 1024)))) (ddiv (Finite 1) (Finite (2 powi (- 1024))))
       = NaN
   \<and> ddiv (Finite 1) (Finite (2 powi (- 1024))) = PlusInf"
proof -
  have isd: "is_double (rnd64 (ln (10 ^ 10)))" by (rule is_double_rnd64 [OF ln_1e10_bounds])
  have pos1: "(0::real) < 1" and pos2: "(0::real) < 2 powi (- 1024)" by simp_all
  have small: "(2::real) powi (- 1023) \<le> 1" by (simp add: power_int_minus field_simps)
  note a = Arrhenius64_getLnRate_value [where T = 1 and l = 0 and m_lnA = "Finite 3"
      and m_n = "Finite 2" and m_temp = "Finite 5" and lnT = "Finite 7" and invT = "Finite 11"
      and a = 3 and n = 2 and Ta = 5 and x = 7 and y = 11 and k = "- 38",
      OF pos1 isd]
  note b = Arrhenius64_getLnRate_value [where T = "2 powi (- 1024)"
      and l = "rnd64 (ln (2 powi (- 1024)))", OF pos2 isd]
  have a3: "ddiv (Finite 1) (Finite 1) \<noteq> PlusInf" using a small by blast
  have b4: "ddiv (Finite 1) (Finite (2 powi (- 1024))) = PlusInf" using b by blast
  have a1: "Arrhenius64_getLnRate (Arrhenius64 (Finite 3) (Finite 2) (Finite 5)) (Finite 7) (Finite 11)
       = dsub (dadd (Finite 3) (dmul (Finite 2) (Finite 7))) (dmul (Finite 5) (Finite 11))"
    using a by blast
  have a5: "- 38 = rnd64 (rnd64 (3 + rnd64 (2 * 7)) - rnd64 (5 * 11))"
    using a ex_value_lnk by blast
  have "Arrhenius64_getLnRate (Arrhenius64 (Finite (rnd64 (ln (10 ^ 10)))) (Finite 0) (Finite 0))
        (Finite 0) (ddiv (Finite 1) (Finite 1))
       = (if ddiv (Finite 1) (Finite 1) = PlusInf then NaN else Finite (rnd64 (ln (10 ^ 10))))"
    using a by blast
  then have a2: "Arrhenius64_getLnRate (Arrhenius64 (Finite (rnd64 (ln (10 ^ 10)))) (Finite 0) (Finite 0))
        (std_log (Finite 1)) (ddiv (Finite 1) (Finite 1)) = Finite (rnd64 (ln (10 ^ 10)))"
    using a3 by (simp only: std_log_1 if_False)
  have "Arrhenius64_getLnRate (Arrhenius64 (Finite (rnd64 (ln (10 ^ 10)))) (Finite 0) (Finite 0))
        (Finite (rnd64 (ln (2 powi (- 1024))))) (ddiv (Finite 1) (Finite (2 powi (- 1024))))
       = (if ddiv (Finite 1) (Finite (2 powi (- 1024))) = PlusInf then NaN
          else Finite (rnd64 (ln (10 ^ 10))))"
    using b by blast
  then have b2: "Arrhenius64_getLnRate (Arrhenius64 (Finite (rnd64 (ln (10 ^ 10)))) (Finite 0) (Finite 0))
        (std_log (Finite (2 powi (- 1024)))) (ddiv (Finite 1) (Finite (2 powi (- 1024)))) = NaN"
    by (simp only: b4 std_log_tiny simp_thms if_True)
  show ?thesis using a1 ex_value_lnk a5 a2 a3 b2 b4 by blast
qed

text \<open>
  At the smallest positive double, \<open>T = 2^(-1074)\<close>, the law with \<open>ln A = ln 1e10\<close>,
  \<open>n = 0\<close> and activation temperature \<open>0\<close> returns NaN, not \<open>ln 1e10\<close>.
\<close>

theorem Arrhenius64_getLnRate_tiny_T_counterexample:
  "Arrhenius64_getLnRate (Arrhenius64 (Finite (rnd64 (ln (10 ^ 10)))) (Finite 0) (Finite 0))
        (std_log (Finite (2 powi (- 1074)))) (ddiv (Finite 1) (Finite (2 powi (- 1074))))
     = NaN"
proof -
  have "(2::real) powi (- 1074) \<le> 2 powi (- 1024)"
    by (rule power_int_increasing) simp_all
  then have "ddiv (Finite 1) (Finite (2 powi (- 1074))) = PlusInf"
    by (intro ddiv_overflow) simp_all
  then show ?thesis by (simp only: Arrhenius64_zero_law_inf)
qed

text \<open>
  Claim C7, amended. For an Arrhenius rate law with temperature exponent \<open>n > 0\<close> and
  activation temperature \<open>Ta > 0\<close>, the value returned in double arithmetic for
  \<open>lnT = log(T)\<close>, \<open>invT = 1.0 / T\<close> is non-decreasing in \<open>T\<close> over \<open>T > 0\<close> wherever it
  is finite, provided the logarithms are ordered as the temperatures are: for
  \<open>0 < T1 < T2\<close> with \<open>log(T1) \<le> log(T2)\<close> and finite results, \<open>ln k(T1) \<le> ln k(T2)\<close>.
  It is not strictly increasing: rounding can return the same double at two
  temperatures.
\<close>

theorem Arrhenius64_getLnRate_mono:
  assumes "0 < n" and "0 < Ta" and "0 < T1" and "T1 < T2" and "l1 \<le> l2"
    and "Arrhenius64_getLnRate (Arrhenius64 (Finite lnA) (Finite n) (Finite Ta)) (Finite l1)
           (ddiv (Finite 1) (Finite T1)) = Finite k1"
    and "Arrhenius64_getLnRate (Arrhenius64 (Finite lnA) (Finite n) (Finite Ta)) (Finite l2)
           (ddiv (Finite 1) (Finite T2)) = Finite k2"
  shows "k1 \<le> k2"
proof -
  have T2: "0 < T2" using assms(3,4) by linarith
  have k1: "k1 = rnd64 (rnd64 (lnA + rnd64 (n * l1)) - rnd64 (Ta * rnd64 (1 / T1)))"
    using assms(6,3) by (rule Arrhenius64_getLnRate_Finite)
  have k2: "k2 = rnd64 (rnd64 (lnA + rnd64 (n * l2)) - rnd64 (Ta * rnd64 (1 / T2)))"
    using assms(7) T2 by (rule Arrhenius64_getLnRate_Finite)
  have "n * l1 \<le> n * l2" using assms(1,5) by simp
  then have "rnd64 (n * l1) \<le> rnd64 (n * l2)" by (rule rnd64_mono)
  then have "lnA + rnd64 (n * l1) \<le> lnA + rnd64 (n * l2)" by simp
  then have x: "rnd64 (lnA + rnd64 (n * l1)) \<le> rnd64 (lnA + rnd64 (n * l2))"
    by (rule rnd64_mono)
  have "1 / T2 \<le> 1 / T1" using assms(3,4) by (simp add: frac_le)
  then have "rnd64 (1 / T2) \<le> rnd64 (1 / T1)" by (rule rnd64_mono)
  then have "Ta * rnd64 (1 / T2) \<le> Ta * rnd64 (1 / T1)" using assms(2) by simp
  then have y: "rnd64 (Ta * rnd64 (1 / T2)) \<le> rnd64 (Ta * rnd64 (1 / T1))"
    by (rule rnd64_mono)
  have "rnd64 (lnA + rnd64 (n * l1)) - rnd64 (Ta * rnd64 (1 / T1))
      \<le> rnd64 (lnA + rnd64 (n * l2)) - rnd64 (Ta * rnd64 (1 / T2))"
    using x y by linarith
  then show ?thesis unfolding k1 k2 by (rule rnd64_mono)
qed

theorem Arrhenius64_getLnRate_mono_witness:
  "Arrhenius64_getLnRate (Arrhenius64 (Finite 0) (Finite 1) (Finite 1))
       (std_log (Finite 1)) (ddiv (Finite 1) (Finite 1)) = Finite (- 1)
   \<and> Arrhenius64_getLnRate (Arrhenius64 (Finite 0) (Finite 1) (Finite 1))
       (std_log (Finite 2)) (ddiv (Finite 1) (Finite 2))
       = Finite (rnd64 (rnd64 (ln 2) - 2 powi (- 1)))
   \<and> - 1 \<le> rnd64 (rnd64 (ln 2) - 2 powi (- 1))"
proof -
  have l: "(0::real) \<le> rnd64 (ln 2)" by (rule rnd64_unit [OF ln2_unit])
  have k1: "Arrhenius64_getLnRate (Arrhenius64 (Finite 0) (Finite 1) (Finite 1))
       (Finite 0) (ddiv (Finite 1) (Finite 1)) = Finite (- 1)"
    by (simp only: ddiv_1_1 ex_mono_lnk_1)
  have k2: "Arrhenius64_getLnRate (Arrhenius64 (Finite 0) (Finite 1) (Finite 1))
       (Finite (rnd64 (ln 2))) (ddiv (Finite 1) (Finite 2))
       = Finite (rnd64 (rnd64 (ln 2) - 2 powi (- 1)))"
    by (simp only: ddiv_1_2 ex_mono_lnk_2)
  have "- 1 \<le> rnd64 (rnd64 (ln 2) - 2 powi (- 1))"
    using Arrhenius64_getLnRate_mono [where n = 1 and Ta = 1 and ?T1.0 = 1 and ?T2.0 = 2
        and ?l1.0 = 0 and ?l2.0 = "rnd64 (ln 2)" and lnA = 0, OF _ _ _ _ l k1 k2]
    by simp
  then show ?thesis using k1 k2 by (simp only: std_log_1 std_log_2)
qed

text \<open>
  The law with \<open>ln A = 1\<close>, \<open>n = 2^(-60)\<close> and activation temperature \<open>2^(-60)\<close> returns
  \<open>1\<close> at \<open>T = 1\<close> and at \<open>T = 2\<close>: both terms in \<open>T\<close> are below half a unit in the last
  place of \<open>1\<close>.
\<close>

theorem Arrhenius64_getLnRate_flat_counterexample:
  "Arrhenius64_getLnRate (Arrhenius64 (Finite 1) (Finite (2 powi (- 60))) (Finite (2 powi (- 60))))
       (std_log (Finite 1)) (ddiv (Finite 1) (Finite 1)) = Finite 1
   \<and> Arrhenius64_getLnRate (Arrhenius64 (Finite 1) (Finite (2 powi (- 60))) (Finite (2 powi (- 60))))
       (std_log (Finite 2)) (ddiv (Finite 1) (Finite 2)) = Finite 1"
  by (simp only: std_log_1 std_log_2 ddiv_1_1 ddiv_1_2 ex_flat_lnk_1 ex_flat_lnk_2)

text \<open>
  Claim C8. The evaluation function of the rational cubic law returns the ratio of the
  cubic \<open>a0 + a1 T + a2 T\<^sup>2 + a3 T\<^sup>3\<close> to the cubic \<open>b0 + b1 T + b2 T\<^sup>2 + T\<^sup>3\<close> (leading
  coefficient one) with no logarithm taken, whereas each sibling law returns the natural
  logarithm of its rate: of \<open>A T\<^sup>n exp (- Ta / T)\<close> for Arrhenius, of \<open>A\<close> for the constant
  law, and of \<open>T\<^sup>n exp (- Ta / T) P / Q\<close> for the rational exponential law where the
  ratio \<open>P / Q\<close> is positive. (What the returned ratio stands for is not part of the
  function: the class comment calls the law the exponential of a rational function.)
\<close>

theorem expRat33_getLnRate_ratio:
  "expRat33_getLnRate (expRat33 a0 a1 a2 a3 b0 b1 b2) T
     = (a0 + a1 * T + a2 * T ^ 2 + a3 * T ^ 3) / (b0 + b1 * T + b2 * T ^ 2 + T ^ 3)
   \<and> (0 < T \<longrightarrow>
        Arrhenius_getLnRate (Arrhenius lnA n Ta) (ln T) (1 / T)
          = ln (Arrhenius_A (Arrhenius lnA n Ta) * T powr n * exp (- Ta / T)))
   \<and> constRate_getLnRate (constRate lnA) = ln (exp lnA)
   \<and> (0 < T \<and> 0 < (p0 + p1 * T + p2 * (T * T)) / (q0 + q1 * T + q2 * (T * T) + q3 * (T * T) * T) \<longrightarrow>
        rationalExp_getLnRate (rationalExp n Ta p0 p1 p2 q0 q1 q2 q3) (ln T) (1 / T) T (T * T)
          = ln (T powr n * exp (- Ta / T)
                * ((p0 + p1 * T + p2 * (T * T)) / (q0 + q1 * T + q2 * (T * T) + q3 * (T * T) * T))))"
proof -
  have num: "a0 + (a1 + (a2 + a3 * T) * T) * T = a0 + a1 * T + a2 * T ^ 2 + a3 * T ^ 3"
    by (simp add: algebra_simps power2_eq_square power3_eq_cube)
  have den: "b0 + (b1 + (b2 + T) * T) * T = b0 + b1 * T + b2 * T ^ 2 + T ^ 3"
    by (simp add: algebra_simps power2_eq_square power3_eq_cube)
  have ratio: "expRat33_getLnRate (expRat33 a0 a1 a2 a3 b0 b1 b2) T
     = (a0 + a1 * T + a2 * T ^ 2 + a3 * T ^ 3) / (b0 + b1 * T + b2 * T ^ 2 + T ^ 3)"
    by (simp only: expRat33_getLnRate.simps num den)
  have arr: "Arrhenius_getLnRate (Arrhenius lnA n Ta) (ln T) (1 / T)
          = ln (Arrhenius_A (Arrhenius lnA n Ta) * T powr n * exp (- Ta / T))" if "0 < T"
  proof -
    have "ln (exp lnA * T powr n * exp (- Ta / T)) = ln (exp lnA) + ln (T powr n) + ln (exp (- Ta / T))"
      using that by (simp add: ln_mult)
    also have "\<dots> = lnA + n * ln T - Ta * (1 / T)"
      using that by (simp add: ln_powr)
    finally show ?thesis by simp
  qed
  have rat: "rationalExp_getLnRate (rationalExp n Ta p0 p1 p2 q0 q1 q2 q3) (ln T) (1 / T) T (T * T)
          = ln (T powr n * exp (- Ta / T)
                * ((p0 + p1 * T + p2 * (T * T)) / (q0 + q1 * T + q2 * (T * T) + q3 * (T * T) * T)))"
    if "0 < T" and "0 < (p0 + p1 * T + p2 * (T * T)) / (q0 + q1 * T + q2 * (T * T) + q3 * (T * T) * T)"
  proof -
    define R where "R = (p0 + p1 * T + p2 * (T * T)) / (q0 + q1 * T + q2 * (T * T) + q3 * (T * T) * T)"
    have Rpos: "0 < R" using that(2) by (simp only: R_def)
    have "ln (T powr n * exp (- Ta / T) * R) = ln (T powr n) + ln (exp (- Ta / T)) + ln R"
      using that(1) Rpos by (simp add: ln_mult)
    also have "\<dots> = n * ln T - Ta * (1 / T) + ln R"
      using that(1) by (simp add: ln_powr)
    finally show ?thesis
      by (simp only: rationalExp_getLnRate.simps R_def)
  qed
  show ?thesis
    using ratio arr rat by simp
qed

theorem expRat33_getLnRate_ratio_witness:
  "expRat33_getLnRate (expRat33 1 2 3 4 5 6 7) 2 = (1 + 2 * 2 + 3 * 2 ^ 2 + 4 * 2 ^ 3) / (5 + 6 * 2 + 7 * 2 ^ 2 + 2 ^ 3)
   \<and> Arrhenius_getLnRate (Arrhenius 1 2 3) (ln 2) (1 / 2)
          = ln (Arrhenius_A (Arrhenius 1 2 3) * 2 powr 2 * exp (- 3 / 2))
   \<and> rationalExp_getLnRate (rationalExp 2 3 1 0 0 1 0 0 0) (ln 2) (1 / 2) 2 (2 * 2)
          = ln (2 powr 2 * exp (- 3 / 2) * ((1 + 0 * 2 + 0 * (2 * 2)) / (1 + 0 * 2 + 0 * (2 * 2) + 0 * (2 * 2) * 2)))"
  using expRat33_getLnRate_ratio [where ?a0.0=1 and ?a1.0=2 and ?a2.0=3 and ?a3.0=4 and ?b0.0=5 and ?b1.0=6 and ?b2.0=7
      and T=2 and lnA=1 and n=2 and Ta=3 and ?p0.0=1 and ?p1.0=0 and ?p2.0=0 and ?q0.0=1 and ?q1.0=0 and ?q2.0=0 and ?q3.0=0]
  by simp

section \<open>Third-body efficiencies\<close>

lemma fold_accumulate:
  "fold (\<lambda>(first, second) acc. acc + f first * second) xs (a::real)
     = a + (\<Sum>(i, w) \<leftarrow> xs. f i * w)"
  by (induction xs arbitrary: a) (auto simp: algebra_simps)

lemma multiplyEfficiencies_eq:
  "multiplyEfficiencies e 0 mem p_s g p_r
     = mem(p_r + int (rxn_of e) := mem (p_r + int (rxn_of e)) * weightedSum (\<lambda>i. mem (p_s + i)) g e)"
  by (cases e) (simp add: fold_accumulate weightedSum_def Let_def)

lemma fold_frame:
  assumes "\<forall>e \<in> set es. a \<noteq> p_r + int (rxn_of e)"
  shows "fold (\<lambda>iter m. multiplyEfficiencies iter 0 m p_s g p_r) es mem a = mem a"
  using assms
proof (induction es arbitrary: mem)
  case Nil
  show ?case by simp
next
  case (Cons e es)
  have "fold (\<lambda>iter m. multiplyEfficiencies iter 0 m p_s g p_r) es
          (multiplyEfficiencies e 0 mem p_s g p_r) a
        = multiplyEfficiencies e 0 mem p_s g p_r a"
    using Cons by simp
  also have "\<dots> = mem a"
    using Cons.prems by (simp add: multiplyEfficiencies_eq)
  finally show ?case by simp
qed

lemma weightedSum_cong:
  assumes "\<forall>(s, w) \<in> set (effs_of e). c s = c' s"
  shows "weightedSum c g e = weightedSum c' g e"
proof -
  have "map (\<lambda>(s, weight). c s * weight) (effs_of e) = map (\<lambda>(s, weight). c' s * weight) (effs_of e)"
    by (rule map_cong) (use assms in auto)
  then show ?thesis by (simp only: weightedSum_def)
qed

lemma fold_product:
  assumes reads: "\<forall>e \<in> set es. \<forall>(s, w) \<in> set (effs_of e). mem (p_s + s) = mem0 (p_s + s)"
    and sep: "\<forall>e \<in> set es. \<forall>(s, w) \<in> set (effs_of e). \<forall>e' \<in> set es. p_s + s \<noteq> p_r + int (rxn_of e')"
  shows "fold (\<lambda>iter m. multiplyEfficiencies iter 0 m p_s g p_r) es mem (p_r + int j)
       = mem (p_r + int j)
           * prod_list (map (weightedSum (\<lambda>i. mem0 (p_s + i)) g) (filter (\<lambda>e. rxn_of e = j) es))"
  using assms
proof (induction es arbitrary: mem)
  case Nil
  show ?case by simp
next
  case (Cons e es)
  let ?W = "weightedSum (\<lambda>i. mem0 (p_s + i)) g"
  let ?mem1 = "multiplyEfficiencies e 0 mem p_s g p_r"
  have w: "weightedSum (\<lambda>i. mem (p_s + i)) g e = ?W e"
    by (rule weightedSum_cong) (use Cons.prems(1) in auto)
  have mem1: "?mem1 = mem(p_r + int (rxn_of e) := mem (p_r + int (rxn_of e)) * ?W e)"
    by (simp add: multiplyEfficiencies_eq w)
  have reads1: "\<forall>e' \<in> set es. \<forall>(s, w) \<in> set (effs_of e'). ?mem1 (p_s + s) = mem0 (p_s + s)"
    using Cons.prems by (fastforce simp: mem1)
  have sep1: "\<forall>e' \<in> set es. \<forall>(s, w) \<in> set (effs_of e'). \<forall>e'' \<in> set es. p_s + s \<noteq> p_r + int (rxn_of e'')"
    using Cons.prems(2) by fastforce
  have "fold (\<lambda>iter m. multiplyEfficiencies iter 0 m p_s g p_r) (e # es) mem (p_r + int j)
      = ?mem1 (p_r + int j) * prod_list (map ?W (filter (\<lambda>e. rxn_of e = j) es))"
    using Cons.IH [OF reads1 sep1] by simp
  also have "\<dots> = mem (p_r + int j) * prod_list (map ?W (filter (\<lambda>e. rxn_of e = j) (e # es)))"
    by (simp add: mem1)
  finally show ?case .
qed

text \<open>
  Claim C2. For every reaction registered with \<open>addReaction\<close>, \<open>multiplyThirdbodies\<close>
  multiplies the rate of progress at the reaction's index, in place, by the weighted
  sum that starts at \<open>0\<close> and adds \<open>concentration s * weight\<close> over the species
  efficiencies and \<open>groupConcentration g * weight\<close> over the group efficiencies, the
  group concentrations being those the collaborator supplies. An index registered more
  than once is multiplied by the sum of each registration. The arrays do not overlap:
  no concentration that an efficiency list reads is a rate of progress that the manager
  writes. With the concentrations \<open>[1, 2]\<close>, the species efficiencies \<open>[1, 1/2]\<close>, no group
  efficiencies and the rate of progress \<open>5\<close>, the result is \<open>10\<close>.
\<close>

theorem multiplyThirdbodies_weighted:
  fixes m_thermo :: Thermodynamics and mem :: memory
  assumes "\<forall>e \<in> set (m_effs mgr). \<forall>(s, w) \<in> set (effs_of e).
             \<forall>e' \<in> set (m_effs mgr). p_s + s \<noteq> p_r + int (rxn_of e')"
  defines "concentration \<equiv> (\<lambda>s. mem (p_s + s))"
  defines "groupConcentration \<equiv> sumSgroupMembersValues m_thermo concentration (p_g mgr)"
  shows "snd (multiplyThirdbodies m_thermo mgr mem p_s p_r) (p_r + int j)
         = mem (p_r + int j)
             * prod_list (map (weightedSum concentration groupConcentration)
                            (filter (\<lambda>e. rxn_of e = j) (m_effs mgr)))
     \<and> (filter (\<lambda>e. rxn_of e = j) (m_effs mgr) = [e] \<longrightarrow>
          snd (multiplyThirdbodies m_thermo mgr mem p_s p_r) (p_r + int j)
            = mem (p_r + int j) * weightedSum concentration groupConcentration e)
     \<and> snd (multiplyThirdbodies m_thermo
               (ThirdbodyManager_addReaction 0 [(0, 1), (1, 1 / 2)] [] (ThirdbodyManager_ctor 2 False fresh))
               example_memory 0 2) 2 = 10"
proof -
  have general: "snd (multiplyThirdbodies m_thermo mgr mem p_s p_r) (p_r + int j)
         = mem (p_r + int j)
             * prod_list (map (weightedSum concentration groupConcentration)
                            (filter (\<lambda>e. rxn_of e = j) (m_effs mgr)))"
    unfolding multiplyThirdbodies_def Let_def snd_conv concentration_def groupConcentration_def
    by (rule fold_product) (use assms(1) in auto)
  have example: "snd (multiplyThirdbodies m_thermo
               (ThirdbodyManager_addReaction 0 [(0, 1), (1, 1 / 2)] [] (ThirdbodyManager_ctor 2 False fresh))
               example_memory 0 2) 2 = 10"
    by (simp add: multiplyThirdbodies_def ThirdbodyManager_addReaction_def ThirdbodyManager_ctor_def
          example_memory_def)
  show ?thesis
    using general example by simp
qed

theorem multiplyThirdbodies_weighted_witness:
  "snd (multiplyThirdbodies ex_thermo example_manager example_memory 0 2) (2 + int 0)
     = 5 * (0 + (1 * 1 + 2 * (1 / 2)) + 0)"
proof -
  have effs: "m_effs example_manager = [PartialThirdbodyEffs 0 [(0, 1), (1, 1 / 2)] []]"
    by (simp add: example_manager_def ThirdbodyManager_addReaction_def ThirdbodyManager_ctor_def)
  have apart: "\<forall>e \<in> set (m_effs example_manager). \<forall>(s, w) \<in> set (effs_of e).
             \<forall>e' \<in> set (m_effs example_manager). 0 + s \<noteq> 2 + int (rxn_of e')"
    by (simp add: effs)
  show ?thesis
    using multiplyThirdbodies_weighted [OF apart, where j = 0 and m_thermo = ex_thermo
        and mem = example_memory and e = "PartialThirdbodyEffs 0 [(0, 1), (1, 1 / 2)] []"]
    by (simp add: effs weightedSum_def example_memory_def)
qed

text \<open>
  Claim C10. \<open>multiplyThirdbodies\<close> changes the caller's memory only at the rates of
  progress whose indices are registered: every other cell is as it was, in particular
  the rate of progress at an index that no registered reaction has, and every
  concentration (a cell of the concentrations array that is not also such a rate of
  progress). The list of registered reactions is unchanged too; only the manager's own
  group buffer is refilled, by the collaborator.
\<close>

theorem multiplyThirdbodies_frame:
  fixes m_thermo :: Thermodynamics and mem :: memory
  shows "((\<forall>e \<in> set (m_effs mgr). a \<noteq> p_r + int (rxn_of e)) \<longrightarrow>
            snd (multiplyThirdbodies m_thermo mgr mem p_s p_r) a = mem a)
     \<and> (j \<notin> rxn_of ` set (m_effs mgr) \<longrightarrow>
            snd (multiplyThirdbodies m_thermo mgr mem p_s p_r) (p_r + int j) = mem (p_r + int j))
     \<and> ((\<forall>e \<in> set (m_effs mgr). p_s + s \<noteq> p_r + int (rxn_of e)) \<longrightarrow>
            snd (multiplyThirdbodies m_thermo mgr mem p_s p_r) (p_s + s) = mem (p_s + s))
     \<and> m_effs (fst (multiplyThirdbodies m_thermo mgr mem p_s p_r)) = m_effs mgr"
proof -
  have frame: "snd (multiplyThirdbodies m_thermo mgr mem p_s p_r) b = mem b"
    if "\<forall>e \<in> set (m_effs mgr). b \<noteq> p_r + int (rxn_of e)" for b
    unfolding multiplyThirdbodies_def Let_def snd_conv
    using that by (rule fold_frame)
  have unregistered: "snd (multiplyThirdbodies m_thermo mgr mem p_s p_r) (p_r + int j) = mem (p_r + int j)"
    if "j \<notin> rxn_of ` set (m_effs mgr)"
  proof (rule frame, rule ballI)
    fix e assume "e \<in> set (m_effs mgr)"
    then have "rxn_of e \<noteq> j" using that by blast
    then show "p_r + int j \<noteq> p_r + int (rxn_of e)" by simp
  qed
  have registered: "m_effs (fst (multiplyThirdbodies m_thermo mgr mem p_s p_r)) = m_effs mgr"
    by (simp add: multiplyThirdbodies_def Let_def)
  show ?thesis
    using frame unregistered registered by blast
qed

theorem multiplyThirdbodies_frame_witness:
  "snd (multiplyThirdbodies ex_thermo example_manager example_memory 0 2) (2 + int 1)
     = example_memory (2 + int 1)
   \<and> snd (multiplyThirdbodies ex_thermo example_manager example_memory 0 2) (0 + 0) = example_memory (0 + 0)
   \<and> snd (multiplyThirdbodies ex_thermo example_manager example_memory 0 2) (0 + 1) = example_memory (0 + 1)"
proof -
  have effs: "m_effs example_manager = [PartialThirdbodyEffs 0 [(0, 1), (1, 1 / 2)] []]"
    by (simp add: example_manager_def ThirdbodyManager_addReaction_def ThirdbodyManager_ctor_def)
  show ?thesis
    using multiplyThirdbodies_frame [where mgr = example_manager and m_thermo = ex_thermo
          and mem = example_memory and p_s = 0 and p_r = 2 and j = 1 and s = 0 and a = 3]
      multiplyThirdbodies_frame [where mgr = example_manager and m_thermo = ex_thermo
          and mem = example_memory and p_s = 0 and p_r = 2 and j = 1 and s = 1 and a = 3]
    by (simp add: effs)
qed

section \<open>The rate manager\<close>

subsection \<open>Insertion into the collection\<close>

lemma all_rates_Cons:
  "all_rates ((k, g) # coll) = map (\<lambda>(slot, rate). (k, slot, rate)) (m_rates g) @ all_rates coll"
  by (simp add: all_rates_def)

lemma all_reacs_Cons:
  "all_reacs ((k, g) # coll) = map (\<lambda>(rxn, reaction). (k, rxn, reaction)) (m_reacs g) @ all_reacs coll"
  by (simp add: all_reacs_def)

lemma all_rates_Nil: "all_rates [] = []"
  by (simp add: all_rates_def)

lemma all_reacs_Nil: "all_reacs [] = []"
  by (simp add: all_reacs_def)

lemma all_rates_addRateCoefficient:
  "mset (all_rates (addRateCoefficient k slot rate coll)) = add_mset (k, slot, rate) (mset (all_rates coll))"
  unfolding addRateCoefficient_def
  by (induction coll) (auto simp: all_rates_Cons all_rates_Nil)

lemma all_reacs_addRateCoefficient:
  "all_reacs (addRateCoefficient k slot rate coll) = all_reacs coll"
  unfolding addRateCoefficient_def
  by (induction coll) (auto simp: all_reacs_Cons all_reacs_Nil)

lemma all_reacs_addReaction:
  "mset (all_reacs (RateLawGroupCollection_addReaction k rxn reaction coll))
     = add_mset (k, rxn, reaction) (mset (all_reacs coll))"
  unfolding RateLawGroupCollection_addReaction_def
  by (induction coll) (auto simp: all_reacs_Cons all_reacs_Nil)

lemma all_rates_addReaction:
  "all_rates (RateLawGroupCollection_addReaction k rxn reaction coll) = all_rates coll"
  unfolding RateLawGroupCollection_addReaction_def
  by (induction coll) (auto simp: all_rates_Cons all_rates_Nil)

subsection \<open>One reaction added\<close>

lemma addRate_effect:
  fixes m :: RateManager and i :: nat and r :: Reaction
  defines "m' \<equiv> addRate (FWD_of r) (REV_of r) i r m"
  shows "mset (all_rates (m_rate_groups m')) = mset (all_rates (m_rate_groups m)) + mset (rates_of (m_nr m) i r)"
    and "mset (all_reacs (m_rate_groups m')) = mset (all_reacs (m_rate_groups m)) + mset (reacs_of i r)"
    and "m_to_copy m' = m_to_copy m @ copies_of i r"
    and "m_irr m' = m_irr m @ irr_of i r"
    and "m_nr m' = m_nr m" and "m_ns m' = m_ns m" and "mp_lnkf m' = mp_lnkf m"
  unfolding m'_def addRate_def Let_def
  by (simp_all add: all_rates_addRateCoefficient all_reacs_addRateCoefficient all_reacs_addReaction
        all_rates_addReaction rates_of_def reacs_of_def copies_of_def irr_of_def)

lemma selectRate_addRate:
  assumes "implemented r"
  shows "selectRate i r m = addRate (FWD_of r) (REV_of r) i r m"
  using assms by (auto simp: implemented_def selectRate_def FWD_of_def REV_of_def Let_def)

lemma RateManager_addReaction_Inr:
  assumes "implemented r"
  shows "RateManager_addReaction i r m = Inr (addRate (FWD_of r) (REV_of r) i r m)"
  using assms selectRate_addRate [OF assms]
  by (auto simp: RateManager_addReaction_def implemented_def Let_def)

lemma RateManager_addReaction_Inl:
  assumes "\<not> implemented r"
  shows "\<exists>e. RateManager_addReaction i r m = Inl e"
  using assms by (auto simp: RateManager_addReaction_def implemented_def Let_def)

subsection \<open>The constructor's loop\<close>

lemma addReactions_ok:
  assumes "\<forall>r \<in> set rs. implemented r"
  shows "\<exists>m'. addReactions i rs m = (m', None)
      \<and> mset (all_rates (m_rate_groups m'))
          = mset (all_rates (m_rate_groups m)) + mset (per_reaction (rates_of (m_nr m)) i rs)
      \<and> mset (all_reacs (m_rate_groups m'))
          = mset (all_reacs (m_rate_groups m)) + mset (per_reaction reacs_of i rs)
      \<and> m_to_copy m' = m_to_copy m @ per_reaction copies_of i rs
      \<and> m_irr m' = m_irr m @ per_reaction irr_of i rs
      \<and> m_nr m' = m_nr m \<and> m_ns m' = m_ns m \<and> mp_lnkf m' = mp_lnkf m"
  using assms
proof (induction rs arbitrary: i m)
  case Nil
  show ?case by simp
next
  case (Cons r rs)
  let ?m1 = "addRate (FWD_of r) (REV_of r) i r m"
  have r: "implemented r" and rs: "\<forall>r \<in> set rs. implemented r"
    using Cons.prems by simp_all
  obtain m' where m': "addReactions (Suc i) rs ?m1 = (m', None)"
      "mset (all_rates (m_rate_groups m'))
          = mset (all_rates (m_rate_groups ?m1)) + mset (per_reaction (rates_of (m_nr ?m1)) (Suc i) rs)"
      "mset (all_reacs (m_rate_groups m'))
          = mset (all_reacs (m_rate_groups ?m1)) + mset (per_reaction reacs_of (Suc i) rs)"
      "m_to_copy m' = m_to_copy ?m1 @ per_reaction copies_of (Suc i) rs"
      "m_irr m' = m_irr ?m1 @ per_reaction irr_of (Suc i) rs"
      "m_nr m' = m_nr ?m1" "m_ns m' = m_ns ?m1" "mp_lnkf m' = mp_lnkf ?m1"
    using Cons.IH [OF rs, of "Suc i" ?m1] by blast
  have "addReactions i (r # rs) m = (m', None)"
    by (simp add: RateManager_addReaction_Inr [OF r] m'(1))
  then show ?case
    using m'(2-) by (simp add: addRate_effect)
qed

lemma addReactions_throw:
  assumes "\<exists>r \<in> set rs. \<not> implemented r"
  shows "\<exists>m' e. addReactions i rs m = (m', Some e) \<and> mp_lnkf m' = mp_lnkf m"
  using assms
proof (induction rs arbitrary: i m)
  case Nil
  then show ?case by simp
next
  case (Cons r rs)
  show ?case
  proof (cases "implemented r")
    case True
    let ?m1 = "addRate (FWD_of r) (REV_of r) i r m"
    have "\<exists>r \<in> set rs. \<not> implemented r"
      using Cons.prems True by auto
    then obtain m' e where "addReactions (Suc i) rs ?m1 = (m', Some e)" "mp_lnkf m' = mp_lnkf ?m1"
      using Cons.IH [of "Suc i" ?m1] by blast
    then show ?thesis
      by (simp add: RateManager_addReaction_Inr [OF True] addRate_effect)
  next
    case False
    then obtain e where "RateManager_addReaction i r m = Inl e"
      using RateManager_addReaction_Inl by blast
    then show ?thesis by simp
  qed
qed

subsection \<open>The entries the reactions call for\<close>

lemma set_per_reaction:
  "x \<in> set (per_reaction f i rs) \<longleftrightarrow> (\<exists>j < length rs. x \<in> set (f (i + j) (rs ! j)))"
proof (induction rs arbitrary: i)
  case Nil
  show ?case by simp
next
  case (Cons r rs)
  have "(\<exists>j < length (r # rs). x \<in> set (f (i + j) ((r # rs) ! j)))
      \<longleftrightarrow> x \<in> set (f i r) \<or> (\<exists>j < length rs. x \<in> set (f (Suc i + j) (rs ! j)))"
    (is "?L \<longleftrightarrow> ?R")
  proof
    assume ?L
    then obtain j where j: "j < length (r # rs)" "x \<in> set (f (i + j) ((r # rs) ! j))" by blast
    show ?R
    proof (cases j)
      case 0
      with j show ?thesis by simp
    next
      case (Suc j')
      with j have "j' < length rs" "x \<in> set (f (Suc i + j') (rs ! j'))" by simp_all
      then show ?thesis by blast
    qed
  next
    assume ?R
    then show ?L
    proof
      assume "x \<in> set (f i r)"
      then have "0 < length (r # rs) \<and> x \<in> set (f (i + 0) ((r # rs) ! 0))" by simp
      then show ?L by blast
    next
      assume "\<exists>j < length rs. x \<in> set (f (Suc i + j) (rs ! j))"
      then obtain j where "j < length rs" "x \<in> set (f (Suc i + j) (rs ! j))" by blast
      then have "Suc j < length (r # rs) \<and> x \<in> set (f (i + Suc j) ((r # rs) ! Suc j))" by simp
      then show ?L by blast
    qed
  qed
  then show ?case
    using Cons.IH [of "Suc i"] by simp
qed

lemma distinct_per_reaction:
  assumes each: "\<And>j. j < length rs \<Longrightarrow> distinct (map h (f (i + j) (rs ! j)))"
    and apart: "\<And>j j' x y. j < j' \<Longrightarrow> j' < length rs \<Longrightarrow> x \<in> set (f (i + j) (rs ! j))
                  \<Longrightarrow> y \<in> set (f (i + j') (rs ! j')) \<Longrightarrow> h x \<noteq> h y"
  shows "distinct (map h (per_reaction f i rs))"
  using assms
proof (induction rs arbitrary: i)
  case Nil
  show ?case by simp
next
  case (Cons r rs)
  have head: "distinct (map h (f i r))"
    using Cons.prems(1) [of 0] by simp
  have tail: "distinct (map h (per_reaction f (Suc i) rs))"
  proof (rule Cons.IH)
    fix j assume "j < length rs"
    then show "distinct (map h (f (Suc i + j) (rs ! j)))"
      using Cons.prems(1) [of "Suc j"] by simp
  next
    fix j j' x y
    assume "j < j'" "j' < length rs" "x \<in> set (f (Suc i + j) (rs ! j))"
      "y \<in> set (f (Suc i + j') (rs ! j'))"
    then show "h x \<noteq> h y"
      using Cons.prems(2) [of "Suc j" "Suc j'" x y] by simp
  qed
  have cross: "h x \<noteq> h y"
    if x: "x \<in> set (f i r)" and y: "y \<in> set (per_reaction f (Suc i) rs)" for x y
  proof -
    obtain j where j: "j < length rs" "y \<in> set (f (Suc i + j) (rs ! j))"
      using y set_per_reaction [of y f "Suc i" rs] by blast
    show ?thesis
      using Cons.prems(2) [of 0 "Suc j" x y] x j by simp
  qed
  show ?case
    using head tail cross by (auto simp: image_iff)
qed

lemma distinct_rate_slots:
  assumes "length rs \<le> nr"
  shows "distinct (map slot_of (per_reaction (rates_of nr) 0 rs))"
proof (rule distinct_per_reaction)
  fix j assume "j < length rs"
  then have "0 < nr" using assms by simp
  then show "distinct (map slot_of (rates_of nr (0 + j) (rs ! j)))"
    by (auto simp: rates_of_def)
next
  fix j j' x y
  assume "j < j'" "j' < length rs" "x \<in> set (rates_of nr (0 + j) (rs ! j))"
    "y \<in> set (rates_of nr (0 + j') (rs ! j'))"
  then show "slot_of x \<noteq> slot_of y"
    using assms by (auto simp: rates_of_def split: if_splits)
qed

lemma distinct_reac_slots:
  "distinct (map slot_of (per_reaction reacs_of 0 rs))"
  by (rule distinct_per_reaction) (auto simp: reacs_of_def split: if_splits)

subsection \<open>Writes into the block\<close>

lemma length_fold_update:
  "length (fold (\<lambda>e out. out[idx e := val e out]) es (block::real list)) = length block"
  by (induction es arbitrary: block) simp_all

lemma fold_update_other:
  assumes "s \<notin> idx ` set es"
  shows "fold (\<lambda>e out. out[idx e := val e out]) es (block::real list) ! s = block ! s"
  using assms by (induction es arbitrary: block) simp_all

lemma fold_update_at:
  assumes "distinct (map idx es)" and "e \<in> set es" and "idx e < length block"
    and stable: "\<And>out e'. e' \<in> set es \<Longrightarrow> idx e' \<noteq> idx e
                   \<Longrightarrow> val e (out[idx e' := val e' out]) = val e out"
  shows "fold (\<lambda>e out. out[idx e := val e out]) es (block::real list) ! idx e = val e block"
  using assms
proof (induction es arbitrary: block)
  case Nil
  then show ?case by simp
next
  case (Cons a es)
  let ?b1 = "block[idx a := val a block]"
  show ?case
  proof (cases "e = a")
    case True
    have "idx a \<notin> idx ` set es" using Cons.prems(1) by simp
    then have "fold (\<lambda>e out. out[idx e := val e out]) es ?b1 ! idx a = ?b1 ! idx a"
      by (rule fold_update_other)
    then show ?thesis using True Cons.prems(3) by simp
  next
    case False
    then have e: "e \<in> set es" using Cons.prems(2) by simp
    have "fold (\<lambda>e out. out[idx e := val e out]) es ?b1 ! idx e = val e ?b1"
    proof (rule Cons.IH)
      show "distinct (map idx es)" using Cons.prems(1) by simp
      show "e \<in> set es" by (rule e)
      show "idx e < length ?b1" using Cons.prems(3) by simp
      show "\<And>out e'. e' \<in> set es \<Longrightarrow> idx e' \<noteq> idx e
              \<Longrightarrow> val e (out[idx e' := val e' out]) = val e out"
        using Cons.prems(4) by simp
    qed
    also have "val e ?b1 = val e block"
    proof (rule Cons.prems(4))
      show "a \<in> set (a # es)" by simp
      show "idx a \<noteq> idx e" using Cons.prems(1) e by auto
    qed
    finally show ?thesis by simp
  qed
qed

subsection \<open>The evaluation step\<close>

lemma logOfRateCoefficients_fold:
  "logOfRateCoefficients coll st block
     = fold (\<lambda>e out. out[slot_of e := (case e of (gtype, slot, rate) \<Rightarrow> getLnRate rate (getT (snd gtype) st))])
         (all_rates coll) block"
proof (induction coll arbitrary: block)
  case Nil
  show ?case by (simp add: logOfRateCoefficients_def all_rates_Nil)
next
  case (Cons a coll)
  obtain k g where a: "a = (k, g)" by (cases a)
  have one: "lnk k g st block
     = fold (\<lambda>e out. out[slot_of e := (case e of (gtype, slot, rate) \<Rightarrow> getLnRate rate (getT (snd gtype) st))])
         (map (\<lambda>(slot, rate). (k, slot, rate)) (m_rates g)) block"
    by (simp add: lnk_def fold_map comp_def case_prod_unfold)
  have "logOfRateCoefficients (a # coll) st block = logOfRateCoefficients coll st (lnk k g st block)"
    by (simp add: logOfRateCoefficients_def a)
  then show ?case
    by (simp add: Cons.IH one a all_rates_Cons)
qed

lemma evaluate_at:
  assumes "distinct (rate_slots coll)" and "(gtype, slot, rate) \<in> set (all_rates coll)"
    and "slot < length block"
  shows "logOfRateCoefficients coll st block ! slot = getLnRate rate (getT (snd gtype) st)"
proof -
  have "fold (\<lambda>e out. out[slot_of e := (case e of (gtype, slot, rate) \<Rightarrow> getLnRate rate (getT (snd gtype) st))])
          (all_rates coll) block ! slot_of (gtype, slot, rate)
        = (case (gtype, slot, rate) of (gtype, slot, rate) \<Rightarrow> getLnRate rate (getT (snd gtype) st))"
    by (rule fold_update_at) (use assms in \<open>simp_all add: rate_slots_def\<close>)
  then show ?thesis by (simp add: logOfRateCoefficients_fold)
qed

lemma evaluate_other:
  assumes "s \<notin> set (rate_slots coll)"
  shows "logOfRateCoefficients coll st block ! s = block ! s"
  unfolding logOfRateCoefficients_fold
  by (rule fold_update_other) (use assms in \<open>simp add: rate_slots_def\<close>)

lemma length_evaluate: "length (logOfRateCoefficients coll st block) = length block"
  unfolding logOfRateCoefficients_fold by (rule length_fold_update)

subsection \<open>The copy step\<close>

lemma length_copy: "length (fold (\<lambda>index out. out[nr + index := out ! index]) cs block) = length block"
  by (induction cs arbitrary: block) simp_all

lemma copy_other:
  assumes "s \<notin> (\<lambda>index. nr + index) ` set cs"
  shows "fold (\<lambda>index out. out[nr + index := out ! index]) cs (block::real list) ! s = block ! s"
  using assms by (induction cs arbitrary: block) simp_all

lemma copy_at:
  assumes "\<forall>index \<in> set cs. index < nr" and "i \<in> set cs" and "nr + i < length block"
  shows "fold (\<lambda>index out. out[nr + index := out ! index]) cs (block::real list) ! (nr + i) = block ! i"
  using assms
proof (induction cs arbitrary: block)
  case Nil
  then show ?case by simp
next
  case (Cons c cs)
  let ?b1 = "block[nr + c := block ! c]"
  have c: "c < nr" and i: "i < nr" using Cons.prems by auto
  show ?case
  proof (cases "i \<in> set cs")
    case True
    have "fold (\<lambda>index out. out[nr + index := out ! index]) cs ?b1 ! (nr + i) = ?b1 ! i"
      by (rule Cons.IH) (use Cons.prems True in simp_all)
    then show ?thesis using i by simp
  next
    case False
    then have "i = c" using Cons.prems(2) by simp
    have "nr + i \<notin> (\<lambda>index. nr + index) ` set cs" using False by auto
    then have "fold (\<lambda>index out. out[nr + index := out ! index]) cs ?b1 ! (nr + i) = ?b1 ! (nr + i)"
      by (rule copy_other)
    then show ?thesis using \<open>i = c\<close> Cons.prems(3) by simp
  qed
qed

subsection \<open>The equilibrium correction\<close>

lemma length_write_gibbs: "length (write_gibbs thermo T ns p_gibbs block) = length block"
  unfolding write_gibbs_def by (rule length_fold_update)

lemma write_gibbs_other:
  assumes "j < p_gibbs"
  shows "write_gibbs thermo T ns p_gibbs block ! j = block ! j"
  unfolding write_gibbs_def
  by (rule fold_update_other) (use assms in auto)

lemma write_gibbs_at:
  assumes "s < ns" and "p_gibbs + s < length block"
  shows "write_gibbs thermo T ns p_gibbs block ! (p_gibbs + s) = speciesGOverRT thermo T s"
  unfolding write_gibbs_def
  by (rule fold_update_at [where idx = "\<lambda>s. p_gibbs + s" and val = "\<lambda>s out. speciesGOverRT thermo T s"])
     (use assms in \<open>simp_all add: distinct_map inj_on_def\<close>)

lemma lnKeq_cong:
  assumes "\<forall>s \<in> set (reactants reaction) \<union> set (products reaction). f s = f' s"
  shows "lnKeq f reaction = lnKeq f' reaction"
proof -
  have "map f (products reaction) = map f' (products reaction)"
    and "map f (reactants reaction) = map f' (reactants reaction)"
    using assms by simp_all
  then show ?thesis by (simp only: lnKeq_def)
qed

lemma length_group_subtractLnKeq: "length (group_subtractLnKeq g p_gibbs p_r block) = length block"
  unfolding group_subtractLnKeq_def case_prod_unfold by (rule length_fold_update)

lemma group_subtractLnKeq_other:
  assumes "j \<notin> (\<lambda>(rxn, reaction). p_r + rxn) ` set (m_reacs g)"
  shows "group_subtractLnKeq g p_gibbs p_r block ! j = block ! j"
  unfolding group_subtractLnKeq_def case_prod_unfold
  by (rule fold_update_other) (use assms in \<open>simp add: case_prod_unfold\<close>)

lemma group_subtractLnKeq_at:
  assumes dist: "distinct (map fst (m_reacs g))"
    and below: "\<forall>(rxn, reaction) \<in> set (m_reacs g). p_r + rxn < p_gibbs"
    and mem: "(rxn, reaction) \<in> set (m_reacs g)"
    and len: "p_r + rxn < length block"
  shows "group_subtractLnKeq g p_gibbs p_r block ! (p_r + rxn)
       = block ! (p_r + rxn) - lnKeq (\<lambda>s. block ! (p_gibbs + s)) reaction"
proof -
  let ?idx = "\<lambda>e::nat \<times> Reaction. p_r + fst e"
  let ?val = "\<lambda>(e::nat \<times> Reaction) (out::real list).
                out ! (p_r + fst e) - lnKeq (\<lambda>s. out ! (p_gibbs + s)) (snd e)"
  have "fold (\<lambda>e out. out[?idx e := ?val e out]) (m_reacs g) block ! ?idx (rxn, reaction)
      = ?val (rxn, reaction) block"
  proof (rule fold_update_at)
    show "distinct (map ?idx (m_reacs g))"
      using dist by (simp add: distinct_map inj_on_def)
    show "(rxn, reaction) \<in> set (m_reacs g)" by (rule mem)
    show "?idx (rxn, reaction) < length block" using len by simp
  next
    fix out :: "real list" and e'
    assume e': "e' \<in> set (m_reacs g)" and neq: "?idx e' \<noteq> ?idx (rxn, reaction)"
    have "p_r + fst e' < p_gibbs" using below e' by (auto simp: case_prod_unfold)
    then have view: "(\<lambda>s. out[?idx e' := ?val e' out] ! (p_gibbs + s)) = (\<lambda>s. out ! (p_gibbs + s))"
      by (intro ext) simp
    have "out[?idx e' := ?val e' out] ! (p_r + rxn) = out ! (p_r + rxn)"
      using neq by simp
    then show "?val (rxn, reaction) (out[?idx e' := ?val e' out]) = ?val (rxn, reaction) out"
      using view by simp
  qed
  then show ?thesis
    by (simp add: group_subtractLnKeq_def case_prod_unfold)
qed

lemma subtractLnKeq_Cons:
  "subtractLnKeq ((k, g) # coll) thermo ns p_gibbs p_r block
     = subtractLnKeq coll thermo ns p_gibbs p_r
         (group_subtractLnKeq g p_gibbs p_r
            (write_gibbs thermo (getT (snd k) (thermo_state thermo)) ns p_gibbs block))"
  by (simp add: subtractLnKeq_def)

lemma length_subtractLnKeq: "length (subtractLnKeq coll thermo ns p_gibbs p_r block) = length block"
proof (induction coll arbitrary: block)
  case Nil
  show ?case by (simp add: subtractLnKeq_def)
next
  case (Cons a coll)
  obtain k g where "a = (k, g)" by (cases a)
  then show ?case
    by (simp add: subtractLnKeq_Cons Cons.IH length_group_subtractLnKeq length_write_gibbs)
qed

lemma subtractLnKeq_other:
  assumes "j < p_gibbs" and "j \<notin> (\<lambda>e. p_r + slot_of e) ` set (all_reacs coll)"
  shows "subtractLnKeq coll thermo ns p_gibbs p_r block ! j = block ! j"
  using assms
proof (induction coll arbitrary: block)
  case Nil
  show ?case by (simp add: subtractLnKeq_def)
next
  case (Cons a coll)
  obtain k g where a: "a = (k, g)" by (cases a)
  let ?b1 = "write_gibbs thermo (getT (snd k) (thermo_state thermo)) ns p_gibbs block"
  let ?b2 = "group_subtractLnKeq g p_gibbs p_r ?b1"
  have here: "j \<notin> (\<lambda>(rxn, reaction). p_r + rxn) ` set (m_reacs g)"
    using Cons.prems(2) by (force simp: a all_reacs_Cons image_iff)
  have "set (all_reacs coll) \<subseteq> set (all_reacs (a # coll))"
    by (simp add: a all_reacs_Cons)
  then have rest: "j \<notin> (\<lambda>e. p_r + slot_of e) ` set (all_reacs coll)"
    using Cons.prems(2) by blast
  have "subtractLnKeq coll thermo ns p_gibbs p_r ?b2 ! j = ?b2 ! j"
    using Cons.IH [OF Cons.prems(1) rest] .
  also have "?b2 ! j = ?b1 ! j"
    using here by (rule group_subtractLnKeq_other)
  also have "?b1 ! j = block ! j"
    using Cons.prems(1) by (rule write_gibbs_other)
  finally show ?case by (simp add: a subtractLnKeq_Cons)
qed

lemma subtractLnKeq_at:
  assumes dist: "distinct (map slot_of (all_reacs coll))"
    and below: "\<forall>e \<in> set (all_reacs coll). p_r + slot_of e < p_gibbs"
    and mem: "(gtype, rxn, reaction) \<in> set (all_reacs coll)"
    and len: "p_gibbs + ns \<le> length block"
    and species: "\<forall>s \<in> set (reactants reaction) \<union> set (products reaction). s < ns"
  shows "subtractLnKeq coll thermo ns p_gibbs p_r block ! (p_r + rxn)
       = block ! (p_r + rxn)
           - lnKeq (speciesGOverRT thermo (getT (snd gtype) (thermo_state thermo))) reaction"
  using dist below mem len
proof (induction coll arbitrary: block)
  case Nil
  then show ?case by (simp add: all_reacs_Nil)
next
  case (Cons a coll)
  obtain k g where a: "a = (k, g)" by (cases a)
  let ?T = "getT (snd k) (thermo_state thermo)"
  let ?b1 = "write_gibbs thermo ?T ns p_gibbs block"
  let ?b2 = "group_subtractLnKeq g p_gibbs p_r ?b1"
  let ?here = "map (\<lambda>(rxn, reaction). (k, rxn, reaction)) (m_reacs g)"
  have split: "all_reacs (a # coll) = ?here @ all_reacs coll"
    by (simp add: a all_reacs_Cons)
  have slots_here: "map slot_of ?here = map fst (m_reacs g)"
    by (simp add: case_prod_unfold comp_def)
  have dist_here: "distinct (map fst (m_reacs g))"
    and dist_rest: "distinct (map slot_of (all_reacs coll))"
    and apart: "set (map fst (m_reacs g)) \<inter> set (map slot_of (all_reacs coll)) = {}"
    using Cons.prems(1) unfolding split map_append distinct_append slots_here by simp_all
  have below_here: "\<forall>(rxn, reaction) \<in> set (m_reacs g). p_r + rxn < p_gibbs"
  proof (clarify)
    fix rxn' reaction' assume "(rxn', reaction') \<in> set (m_reacs g)"
    then have "(k, rxn', reaction') \<in> set (all_reacs (a # coll))"
      unfolding split by force
    then show "p_r + rxn' < p_gibbs"
      using Cons.prems(2) by fastforce
  qed
  have below_rest: "\<forall>e \<in> set (all_reacs coll). p_r + slot_of e < p_gibbs"
    using Cons.prems(2) unfolding split by simp
  have rxn_below: "p_r + rxn < p_gibbs"
    using Cons.prems(2,3) by fastforce
  have len2: "p_gibbs + ns \<le> length ?b2"
    using Cons.prems(4) by (simp add: length_group_subtractLnKeq length_write_gibbs)
  from Cons.prems(3) consider (here) "gtype = k" "(rxn, reaction) \<in> set (m_reacs g)"
    | (rest) "(gtype, rxn, reaction) \<in> set (all_reacs coll)"
    unfolding split by auto
  then have "subtractLnKeq coll thermo ns p_gibbs p_r ?b2 ! (p_r + rxn)
       = block ! (p_r + rxn)
           - lnKeq (speciesGOverRT thermo (getT (snd gtype) (thermo_state thermo))) reaction"
  proof cases
    case here
    have "rxn \<in> set (map fst (m_reacs g))" using here(2) by force
    then have fresh: "rxn \<notin> set (map slot_of (all_reacs coll))" using apart by blast
    have "p_r + rxn \<notin> (\<lambda>e. p_r + slot_of e) ` set (all_reacs coll)"
    proof
      assume "p_r + rxn \<in> (\<lambda>e. p_r + slot_of e) ` set (all_reacs coll)"
      then obtain e where e: "e \<in> set (all_reacs coll)" "p_r + rxn = p_r + slot_of e" by blast
      then have "rxn = slot_of e" by simp
      then have "rxn \<in> slot_of ` set (all_reacs coll)" using e(1) by blast
      then show False using fresh by simp
    qed
    then have "subtractLnKeq coll thermo ns p_gibbs p_r ?b2 ! (p_r + rxn) = ?b2 ! (p_r + rxn)"
      using rxn_below by (intro subtractLnKeq_other)
    also have "?b2 ! (p_r + rxn) = ?b1 ! (p_r + rxn) - lnKeq (\<lambda>s. ?b1 ! (p_gibbs + s)) reaction"
      by (rule group_subtractLnKeq_at [OF dist_here below_here here(2)])
         (use rxn_below Cons.prems(4) in \<open>simp add: length_write_gibbs\<close>)
    also have "?b1 ! (p_r + rxn) = block ! (p_r + rxn)"
      using rxn_below by (rule write_gibbs_other)
    also have "lnKeq (\<lambda>s. ?b1 ! (p_gibbs + s)) reaction = lnKeq (speciesGOverRT thermo ?T) reaction"
    proof (rule lnKeq_cong, rule ballI)
      fix s assume "s \<in> set (reactants reaction) \<union> set (products reaction)"
      then have "s < ns" using species by blast
      moreover have "p_gibbs + s < length block" using \<open>s < ns\<close> Cons.prems(4) by simp
      ultimately show "?b1 ! (p_gibbs + s) = speciesGOverRT thermo ?T s"
        by (rule write_gibbs_at)
    qed
    finally show ?thesis using here(1) by simp
  next
    case rest
    have "rxn \<in> set (map slot_of (all_reacs coll))" using rest by force
    then have "rxn \<notin> set (map fst (m_reacs g))" using apart by blast
    then have notin: "p_r + rxn \<notin> (\<lambda>(rxn, reaction). p_r + rxn) ` set (m_reacs g)" by force
    have "subtractLnKeq coll thermo ns p_gibbs p_r ?b2 ! (p_r + rxn)
        = ?b2 ! (p_r + rxn)
           - lnKeq (speciesGOverRT thermo (getT (snd gtype) (thermo_state thermo))) reaction"
      by (rule Cons.IH [OF dist_rest below_rest rest len2])
    also have "?b2 ! (p_r + rxn) = ?b1 ! (p_r + rxn)"
      using notin by (rule group_subtractLnKeq_other)
    also have "?b1 ! (p_r + rxn) = block ! (p_r + rxn)"
      using rxn_below by (rule write_gibbs_other)
    finally show ?thesis .
  qed
  then show ?case by (simp add: a subtractLnKeq_Cons)
qed

subsection \<open>The constructed manager\<close>

lemma ctor_throws_iff:
  "snd (RateManager_ctor ns rs) \<noteq> None \<longleftrightarrow> (\<exists>r \<in> set rs. \<not> implemented r)"
proof (cases "\<forall>r \<in> set rs. implemented r")
  case True
  then obtain m' where "addReactions 0 rs (RateManager_init ns rs) = (m', None)"
    using addReactions_ok [of rs 0 "RateManager_init ns rs"] by blast
  then show ?thesis using True by (simp add: RateManager_ctor_def Let_def)
next
  case False
  then obtain m' e where "addReactions 0 rs (RateManager_init ns rs) = (m', Some e)"
    using addReactions_throw [of rs 0 "RateManager_init ns rs"] by blast
  then show ?thesis using False by (simp add: RateManager_ctor_def)
qed

lemma ctor_throw_no_block:
  assumes "snd (RateManager_ctor ns rs) \<noteq> None"
  shows "mp_lnkf (fst (RateManager_ctor ns rs)) = None"
proof -
  have "\<exists>r \<in> set rs. \<not> implemented r"
    using assms ctor_throws_iff by blast
  then obtain m' e where "addReactions 0 rs (RateManager_init ns rs) = (m', Some e)"
      "mp_lnkf m' = mp_lnkf (RateManager_init ns rs)"
    using addReactions_throw [of rs 0 "RateManager_init ns rs"] by blast
  then show ?thesis by (simp add: RateManager_ctor_def RateManager_init_def)
qed

lemma ctor_ok:
  assumes "RateManager_ctor ns rs = (m, None)"
  shows "mset (all_rates (m_rate_groups m)) = mset (per_reaction (rates_of (length rs)) 0 rs)"
    and "mset (all_reacs (m_rate_groups m)) = mset (per_reaction reacs_of 0 rs)"
    and "m_to_copy m = per_reaction copies_of 0 rs"
    and "m_irr m = per_reaction irr_of 0 rs"
    and "m_nr m = length rs" and "m_ns m = ns"
    and "mp_lnkf m = Some (replicate (2 * length rs + ns) 0)"
proof -
  have "snd (RateManager_ctor ns rs) = None" using assms by simp
  then have "\<forall>r \<in> set rs. implemented r"
    using ctor_throws_iff [of ns rs] by blast
  then obtain m' where m': "addReactions 0 rs (RateManager_init ns rs) = (m', None)"
      "mset (all_rates (m_rate_groups m'))
          = mset (all_rates (m_rate_groups (RateManager_init ns rs)))
              + mset (per_reaction (rates_of (m_nr (RateManager_init ns rs))) 0 rs)"
      "mset (all_reacs (m_rate_groups m'))
          = mset (all_reacs (m_rate_groups (RateManager_init ns rs))) + mset (per_reaction reacs_of 0 rs)"
      "m_to_copy m' = m_to_copy (RateManager_init ns rs) @ per_reaction copies_of 0 rs"
      "m_irr m' = m_irr (RateManager_init ns rs) @ per_reaction irr_of 0 rs"
      "m_nr m' = m_nr (RateManager_init ns rs)" "m_ns m' = m_ns (RateManager_init ns rs)"
    using addReactions_ok [of rs 0 "RateManager_init ns rs"] by blast
  have m: "m = m'\<lparr>mp_lnkf := Some (replicate (2 * m_nr m' + ns) 0)\<rparr>"
    using assms m'(1) by (simp add: RateManager_ctor_def Let_def)
  show "mset (all_rates (m_rate_groups m)) = mset (per_reaction (rates_of (length rs)) 0 rs)"
    using m'(2) by (simp add: m RateManager_init_def all_rates_Nil)
  show "mset (all_reacs (m_rate_groups m)) = mset (per_reaction reacs_of 0 rs)"
    using m'(3) by (simp add: m RateManager_init_def all_reacs_Nil)
  show "m_to_copy m = per_reaction copies_of 0 rs"
    using m'(4) by (simp add: m RateManager_init_def)
  show "m_irr m = per_reaction irr_of 0 rs"
    using m'(5) by (simp add: m RateManager_init_def)
  show "m_nr m = length rs" using m'(6) by (simp add: m RateManager_init_def)
  show "m_ns m = ns" using m'(7) by (simp add: m RateManager_init_def)
  show "mp_lnkf m = Some (replicate (2 * length rs + ns) 0)"
    using m'(6) by (simp add: m RateManager_init_def)
qed

lemma FWD_REV_eq: "FWD_of r = REV_of r \<longleftrightarrow> ForwardGroup (rxn_type r) = ReverseGroup (rxn_type r)"
  by (simp add: FWD_of_def REV_of_def)

lemma ctor_rates:
  assumes ctor: "RateManager_ctor ns rs = (m, None)"
  shows "distinct (rate_slots (m_rate_groups m))"
    and "\<And>e. e \<in> set (all_rates (m_rate_groups m))
            \<longleftrightarrow> (\<exists>j < length rs. e \<in> set (rates_of (length rs) j (rs ! j)))"
proof -
  have ms: "mset (all_rates (m_rate_groups m)) = mset (per_reaction (rates_of (length rs)) 0 rs)"
    using ctor_ok(1) [OF ctor] .
  then have "mset (map slot_of (all_rates (m_rate_groups m)))
      = mset (map slot_of (per_reaction (rates_of (length rs)) 0 rs))"
    by (metis mset_map)
  then have "distinct (map slot_of (all_rates (m_rate_groups m)))
      \<longleftrightarrow> distinct (map slot_of (per_reaction (rates_of (length rs)) 0 rs))"
    by (rule mset_eq_imp_distinct_iff)
  then show "distinct (rate_slots (m_rate_groups m))"
    using distinct_rate_slots [of rs "length rs"] by (simp add: rate_slots_def)
  fix e
  have "set (all_rates (m_rate_groups m)) = set (per_reaction (rates_of (length rs)) 0 rs)"
    using ms by (rule mset_eq_setD)
  then show "e \<in> set (all_rates (m_rate_groups m))
            \<longleftrightarrow> (\<exists>j < length rs. e \<in> set (rates_of (length rs) j (rs ! j)))"
    using set_per_reaction [of e "rates_of (length rs)" 0 rs] by simp
qed

lemma ctor_reacs:
  assumes ctor: "RateManager_ctor ns rs = (m, None)"
  shows "distinct (map slot_of (all_reacs (m_rate_groups m)))"
    and "\<And>e. e \<in> set (all_reacs (m_rate_groups m))
            \<longleftrightarrow> (\<exists>j < length rs. e \<in> set (reacs_of j (rs ! j)))"
proof -
  have ms: "mset (all_reacs (m_rate_groups m)) = mset (per_reaction reacs_of 0 rs)"
    using ctor_ok(2) [OF ctor] .
  then have "mset (map slot_of (all_reacs (m_rate_groups m)))
      = mset (map slot_of (per_reaction reacs_of 0 rs))"
    by (metis mset_map)
  then have "distinct (map slot_of (all_reacs (m_rate_groups m)))
      \<longleftrightarrow> distinct (map slot_of (per_reaction reacs_of 0 rs))"
    by (rule mset_eq_imp_distinct_iff)
  then show "distinct (map slot_of (all_reacs (m_rate_groups m)))"
    using distinct_reac_slots [of rs] by simp
  fix e
  have "set (all_reacs (m_rate_groups m)) = set (per_reaction reacs_of 0 rs)"
    using ms by (rule mset_eq_setD)
  then show "e \<in> set (all_reacs (m_rate_groups m))
            \<longleftrightarrow> (\<exists>j < length rs. e \<in> set (reacs_of j (rs ! j)))"
    using set_per_reaction [of e reacs_of 0 rs] by simp
qed

lemma ctor_copies:
  assumes ctor: "RateManager_ctor ns rs = (m, None)"
  shows "i \<in> set (m_to_copy m)
     \<longleftrightarrow> i < length rs \<and> isReversible (rs ! i) \<and> FWD_of (rs ! i) = REV_of (rs ! i)"
proof -
  have "i \<in> set (m_to_copy m) \<longleftrightarrow> (\<exists>j < length rs. i \<in> set (copies_of j (rs ! j)))"
    using set_per_reaction [of i copies_of 0 rs] by (simp add: ctor_ok(3) [OF ctor])
  also have "\<dots> \<longleftrightarrow> i < length rs \<and> isReversible (rs ! i) \<and> FWD_of (rs ! i) = REV_of (rs ! i)"
    by (auto simp: copies_of_def split: if_splits)
  finally show ?thesis .
qed

subsection \<open>The three steps of update on a constructed manager\<close>

lemma evaluate_forward:
  assumes ctor: "RateManager_ctor ns rs = (m, None)"
    and len: "length block = 2 * length rs + ns"
    and i: "i < length rs"
  shows "update_evaluate thermo m block ! i
       = getLnRate (rateLaw (rs ! i)) (getT (ForwardGroup (rxn_type (rs ! i))) (thermo_state thermo))"
proof -
  have "(FWD_of (rs ! i), i, rateLaw (rs ! i)) \<in> set (rates_of (length rs) i (rs ! i))"
    by (simp add: rates_of_def)
  then have e: "(FWD_of (rs ! i), i, rateLaw (rs ! i)) \<in> set (all_rates (m_rate_groups m))"
    using ctor_rates(2) [OF ctor] i by blast
  have "i < length block" using len i by simp
  from evaluate_at [OF ctor_rates(1) [OF ctor] e this]
  show ?thesis by (simp add: update_evaluate_def FWD_of_def)
qed

lemma evaluate_reverse:
  assumes ctor: "RateManager_ctor ns rs = (m, None)"
    and len: "length block = 2 * length rs + ns"
    and i: "i < length rs"
    and rev: "isReversible (rs ! i)" "FWD_of (rs ! i) \<noteq> REV_of (rs ! i)"
  shows "update_evaluate thermo m block ! (length rs + i)
           = getLnRate (rateLaw (rs ! i)) (getT (ReverseGroup (rxn_type (rs ! i))) (thermo_state thermo))"
proof -
  have "(REV_of (rs ! i), i + length rs, rateLaw (rs ! i)) \<in> set (rates_of (length rs) i (rs ! i))"
    using rev by (simp add: rates_of_def)
  then have e: "(REV_of (rs ! i), i + length rs, rateLaw (rs ! i)) \<in> set (all_rates (m_rate_groups m))"
    using ctor_rates(2) [OF ctor] i by blast
  have "i + length rs < length block" using len i by simp
  from evaluate_at [OF ctor_rates(1) [OF ctor] e this]
  show ?thesis by (simp add: update_evaluate_def REV_of_def add.commute)
qed

lemma evaluate_untouched:
  assumes ctor: "RateManager_ctor ns rs = (m, None)"
    and i: "i < length rs"
    and norev: "\<not> (isReversible (rs ! i) \<and> FWD_of (rs ! i) \<noteq> REV_of (rs ! i))"
  shows "update_evaluate thermo m block ! (length rs + i) = block ! (length rs + i)"
proof -
  have "length rs + i \<notin> set (rate_slots (m_rate_groups m))"
  proof
    assume "length rs + i \<in> set (rate_slots (m_rate_groups m))"
    then obtain e where e: "e \<in> set (all_rates (m_rate_groups m))" "slot_of e = length rs + i"
      unfolding rate_slots_def by auto
    then obtain j where j: "j < length rs" "e \<in> set (rates_of (length rs) j (rs ! j))"
      using ctor_rates(2) [OF ctor] by blast
    have "e = (FWD_of (rs ! j), j, rateLaw (rs ! j))
        \<or> (e = (REV_of (rs ! j), j + length rs, rateLaw (rs ! j))
            \<and> isReversible (rs ! j) \<and> FWD_of (rs ! j) \<noteq> REV_of (rs ! j))"
      using j(2) by (simp add: rates_of_def split: if_splits)
    then show False
    proof
      assume "e = (FWD_of (rs ! j), j, rateLaw (rs ! j))"
      then show False using e(2) j(1) by simp
    next
      assume "e = (REV_of (rs ! j), j + length rs, rateLaw (rs ! j))
            \<and> isReversible (rs ! j) \<and> FWD_of (rs ! j) \<noteq> REV_of (rs ! j)"
      moreover from this have "j = i" using e(2) by simp
      ultimately show False using norev by simp
    qed
  qed
  then show ?thesis
    unfolding update_evaluate_def by (rule evaluate_other)
qed

lemma length_update_evaluate: "length (update_evaluate thermo m block) = length block"
  by (simp add: update_evaluate_def length_evaluate)

lemma length_update_copy: "length (update_copy m block) = length block"
  by (simp add: update_copy_def length_copy)

lemma length_update_subtract: "length (update_subtract thermo m block) = length block"
  by (simp add: update_subtract_def length_subtractLnKeq)

lemma copy_forward:
  assumes ctor: "RateManager_ctor ns rs = (m, None)"
    and i: "i < length rs"
  shows "update_copy m block ! i = block ! i"
proof -
  have nr: "mp_lnkb m = length rs"
    by (simp add: mp_lnkb_def ctor_ok(5) [OF ctor])
  have "i \<notin> (\<lambda>index. length rs + index) ` set (m_to_copy m)"
    using i by auto
  then show ?thesis
    unfolding update_copy_def nr by (rule copy_other)
qed

lemma copy_copied:
  assumes ctor: "RateManager_ctor ns rs = (m, None)"
    and len: "length block = 2 * length rs + ns"
    and i: "i < length rs"
    and rev: "isReversible (rs ! i)" "FWD_of (rs ! i) = REV_of (rs ! i)"
  shows "update_copy m block ! (length rs + i) = block ! i"
proof -
  have nr: "mp_lnkb m = length rs"
    by (simp add: mp_lnkb_def ctor_ok(5) [OF ctor])
  have bound: "\<forall>index \<in> set (m_to_copy m). index < length rs"
    using ctor_copies [OF ctor] by blast
  have mem: "i \<in> set (m_to_copy m)"
    using ctor_copies [OF ctor, of i] i rev by simp
  have "length rs + i < length block" using len i by simp
  from copy_at [OF bound mem this] show ?thesis
    by (simp only: update_copy_def nr)
qed

lemma copy_untouched:
  assumes ctor: "RateManager_ctor ns rs = (m, None)"
    and norev: "\<not> (isReversible (rs ! i) \<and> FWD_of (rs ! i) = REV_of (rs ! i))"
  shows "update_copy m block ! (length rs + i) = block ! (length rs + i)"
proof -
  have nr: "mp_lnkb m = length rs"
    by (simp add: mp_lnkb_def ctor_ok(5) [OF ctor])
  have "i \<notin> set (m_to_copy m)"
    using ctor_copies [OF ctor, of i] norev by simp
  then have "length rs + i \<notin> (\<lambda>index. length rs + index) ` set (m_to_copy m)"
    by auto
  then show ?thesis
    unfolding update_copy_def nr by (rule copy_other)
qed

lemma ctor_offsets:
  assumes ctor: "RateManager_ctor ns rs = (m, None)"
  shows "mp_lnkb m = length rs" and "mp_gibbs m = length rs + length rs" and "m_ns m = ns"
  by (simp_all add: mp_lnkb_def mp_gibbs_def ctor_ok(5,6) [OF ctor])

lemma ctor_reac_slots:
  assumes ctor: "RateManager_ctor ns rs = (m, None)"
    and e: "e \<in> set (all_reacs (m_rate_groups m))"
  shows "slot_of e < length rs \<and> isReversible (rs ! slot_of e)"
proof -
  obtain j where "j < length rs" "e \<in> set (reacs_of j (rs ! j))"
    using ctor_reacs(2) [OF ctor] e by blast
  then show ?thesis by (auto simp: reacs_of_def split: if_splits)
qed

lemma subtract_forward:
  assumes ctor: "RateManager_ctor ns rs = (m, None)"
    and i: "i < length rs"
  shows "update_subtract thermo m block ! i = block ! i"
proof -
  have "i \<notin> (\<lambda>e. length rs + slot_of e) ` set (all_reacs (m_rate_groups m))"
    using i by auto
  moreover have "i < length rs + length rs" using i by simp
  ultimately show ?thesis
    unfolding update_subtract_def ctor_offsets [OF ctor]
    by (intro subtractLnKeq_other)
qed

lemma subtract_reversible:
  assumes ctor: "RateManager_ctor ns rs = (m, None)"
    and len: "length block = 2 * length rs + ns"
    and i: "i < length rs"
    and rev: "isReversible (rs ! i)"
    and sp: "species_in_range ns rs"
  shows "update_subtract thermo m block ! (length rs + i)
           = block ! (length rs + i)
               - lnKeq (speciesGOverRT thermo (getT (ReverseGroup (rxn_type (rs ! i))) (thermo_state thermo)))
                   (rs ! i)"
proof -
  have "(REV_of (rs ! i), i, rs ! i) \<in> set (reacs_of i (rs ! i))"
    using rev by (simp add: reacs_of_def)
  then have e: "(REV_of (rs ! i), i, rs ! i) \<in> set (all_reacs (m_rate_groups m))"
    using ctor_reacs(2) [OF ctor] i by blast
  have "subtractLnKeq (m_rate_groups m) thermo ns (length rs + length rs) (length rs) block ! (length rs + i)
      = block ! (length rs + i)
          - lnKeq (speciesGOverRT thermo (getT (snd (REV_of (rs ! i))) (thermo_state thermo))) (rs ! i)"
  proof (rule subtractLnKeq_at [OF ctor_reacs(1) [OF ctor] _ e])
    show "\<forall>e \<in> set (all_reacs (m_rate_groups m)). length rs + slot_of e < length rs + length rs"
      using ctor_reac_slots [OF ctor] by simp
    show "length rs + length rs + ns \<le> length block" using len by simp
    show "\<forall>s \<in> set (reactants (rs ! i)) \<union> set (products (rs ! i)). s < ns"
      using sp i unfolding species_in_range_def by (meson nth_mem)
  qed
  then show ?thesis
    by (simp add: update_subtract_def ctor_offsets [OF ctor] REV_of_def)
qed

lemma subtract_irreversible:
  assumes ctor: "RateManager_ctor ns rs = (m, None)"
    and i: "i < length rs"
    and irr: "\<not> isReversible (rs ! i)"
  shows "update_subtract thermo m block ! (length rs + i) = block ! (length rs + i)"
proof -
  have "length rs + i \<notin> (\<lambda>e. length rs + slot_of e) ` set (all_reacs (m_rate_groups m))"
  proof
    assume "length rs + i \<in> (\<lambda>e. length rs + slot_of e) ` set (all_reacs (m_rate_groups m))"
    then obtain e where e: "e \<in> set (all_reacs (m_rate_groups m))" "length rs + i = length rs + slot_of e"
      by blast
    then have "slot_of e = i" by simp
    then show False using ctor_reac_slots [OF ctor e(1)] irr by simp
  qed
  moreover have "length rs + i < length rs + length rs" using i by simp
  ultimately show ?thesis
    unfolding update_subtract_def ctor_offsets [OF ctor]
    by (intro subtractLnKeq_other)
qed

subsection \<open>The block after update\<close>

lemma update_set_block:
  "RateManager_update thermo (m\<lparr>mp_lnkf := Some block\<rparr>)
     = Some (m\<lparr>mp_lnkf := Some (update_block thermo m block)\<rparr>)"
  by (simp add: RateManager_update_def update_block_def update_subtract_def update_copy_def
        update_evaluate_def mp_lnkb_def mp_gibbs_def)

lemma length_update_block: "length (update_block thermo m block) = length block"
  by (simp add: update_block_def length_update_subtract length_update_copy length_update_evaluate)

lemma after_copy_reverse:
  assumes ctor: "RateManager_ctor ns rs = (m, None)"
    and len: "length block = 2 * length rs + ns"
    and i: "i < length rs"
    and rev: "isReversible (rs ! i)"
  shows "update_copy m (update_evaluate thermo m block) ! (length rs + i)
       = getLnRate (rateLaw (rs ! i)) (getT (ReverseGroup (rxn_type (rs ! i))) (thermo_state thermo))"
proof (cases "FWD_of (rs ! i) = REV_of (rs ! i)")
  case True
  have len1: "length (update_evaluate thermo m block) = 2 * length rs + ns"
    using len by (simp add: length_update_evaluate)
  have "update_copy m (update_evaluate thermo m block) ! (length rs + i)
      = update_evaluate thermo m block ! i"
    by (rule copy_copied [OF ctor len1 i rev True])
  also have "\<dots> = getLnRate (rateLaw (rs ! i)) (getT (ForwardGroup (rxn_type (rs ! i))) (thermo_state thermo))"
    by (rule evaluate_forward [OF ctor len i])
  finally show ?thesis using True by (simp add: FWD_REV_eq)
next
  case False
  have "update_copy m (update_evaluate thermo m block) ! (length rs + i)
      = update_evaluate thermo m block ! (length rs + i)"
    by (rule copy_untouched [OF ctor]) (use False in simp)
  also have "\<dots> = getLnRate (rateLaw (rs ! i)) (getT (ReverseGroup (rxn_type (rs ! i))) (thermo_state thermo))"
    by (rule evaluate_reverse [OF ctor len i rev False])
  finally show ?thesis .
qed

lemma update_block_forward:
  assumes ctor: "RateManager_ctor ns rs = (m, None)"
    and len: "length block = 2 * length rs + ns"
    and i: "i < length rs"
  shows "update_block thermo m block ! i
       = getLnRate (rateLaw (rs ! i)) (getT (ForwardGroup (rxn_type (rs ! i))) (thermo_state thermo))"
  by (simp add: update_block_def subtract_forward [OF ctor i] copy_forward [OF ctor i]
        evaluate_forward [OF ctor len i])

lemma update_block_reversible:
  assumes ctor: "RateManager_ctor ns rs = (m, None)"
    and len: "length block = 2 * length rs + ns"
    and i: "i < length rs"
    and rev: "isReversible (rs ! i)"
    and sp: "species_in_range ns rs"
  shows "update_block thermo m block ! (length rs + i)
       = getLnRate (rateLaw (rs ! i)) (getT (ReverseGroup (rxn_type (rs ! i))) (thermo_state thermo))
           - lnKeq (speciesGOverRT thermo (getT (ReverseGroup (rxn_type (rs ! i))) (thermo_state thermo)))
               (rs ! i)"
proof -
  have len2: "length (update_copy m (update_evaluate thermo m block)) = 2 * length rs + ns"
    using len by (simp add: length_update_copy length_update_evaluate)
  show ?thesis
    unfolding update_block_def
    by (simp only: subtract_reversible [OF ctor len2 i rev sp] after_copy_reverse [OF ctor len i rev])
qed

lemma update_block_irreversible:
  assumes ctor: "RateManager_ctor ns rs = (m, None)"
    and i: "i < length rs"
    and irr: "\<not> isReversible (rs ! i)"
  shows "update_block thermo m block ! (length rs + i) = block ! (length rs + i)"
proof -
  have "update_block thermo m block ! (length rs + i)
      = update_copy m (update_evaluate thermo m block) ! (length rs + i)"
    unfolding update_block_def by (rule subtract_irreversible [OF ctor i irr])
  also have "\<dots> = update_evaluate thermo m block ! (length rs + i)"
    by (rule copy_untouched [OF ctor]) (use irr in simp)
  also have "\<dots> = block ! (length rs + i)"
    by (rule evaluate_untouched [OF ctor i]) (use irr in simp)
  finally show ?thesis .
qed

lemma update_block_twice:
  assumes ctor: "RateManager_ctor ns rs = (m, None)"
    and len: "length block = 2 * length rs + ns"
    and sp: "species_in_range ns rs"
  shows "take (2 * length rs) (update_block thermo m (update_block thermo m block))
       = take (2 * length rs) (update_block thermo m block)"
proof -
  let ?b = "update_block thermo m block"
  have lenb: "length ?b = 2 * length rs + ns"
    using len by (simp add: length_update_block)
  have same: "update_block thermo m ?b ! j = ?b ! j" if j: "j < 2 * length rs" for j
  proof (cases "j < length rs")
    case True
    then show ?thesis
      by (simp only: update_block_forward [OF ctor lenb True] update_block_forward [OF ctor len True])
  next
    case False
    define i where "i = j - length rs"
    have i: "i < length rs" and ji: "j = length rs + i"
      using False j by (simp_all add: i_def)
    show ?thesis
    proof (cases "isReversible (rs ! i)")
      case True
      show ?thesis
        unfolding ji
        by (simp only: update_block_reversible [OF ctor lenb i True sp]
              update_block_reversible [OF ctor len i True sp])
    next
      case False
      show ?thesis
        unfolding ji by (rule update_block_irreversible [OF ctor i False])
    qed
  qed
  show ?thesis
  proof (rule nth_take_lemma)
    show "2 * length rs \<le> length (update_block thermo m ?b)"
      using lenb by (simp add: length_update_block)
    show "2 * length rs \<le> length ?b"
      using lenb by simp
    show "\<And>j. j < 2 * length rs \<longrightarrow> update_block thermo m ?b ! j = ?b ! j"
      using same by blast
  qed
qed

lemma count_list_distinct:
  assumes "distinct xs"
  shows "count_list xs x = (if x \<in> set xs then 1 else 0)"
  using assms by (induction xs) auto

lemma distinct_copies: "distinct (per_reaction copies_of 0 rs)"
proof -
  have "distinct (map id (per_reaction copies_of 0 rs))"
    by (rule distinct_per_reaction) (auto simp: copies_of_def split: if_splits)
  then show ?thesis by simp
qed

lemma distinct_irr: "distinct (per_reaction irr_of 0 rs)"
proof -
  have "distinct (map id (per_reaction irr_of 0 rs))"
    by (rule distinct_per_reaction) (auto simp: irr_of_def split: if_splits)
  then show ?thesis by simp
qed

lemma ctor_irr:
  assumes ctor: "RateManager_ctor ns rs = (m, None)"
    and i: "i < length rs"
  shows "i \<in> set (m_irr m) \<longleftrightarrow> \<not> isReversible (rs ! i)"
proof -
  have "i \<in> set (m_irr m) \<longleftrightarrow> (\<exists>j < length rs. i \<in> set (irr_of j (rs ! j)))"
    using set_per_reaction [of i irr_of 0 rs] by (simp add: ctor_ok(4) [OF ctor])
  also have "\<dots> \<longleftrightarrow> \<not> isReversible (rs ! i)"
    using i by (auto simp: irr_of_def split: if_splits)
  finally show ?thesis .
qed

lemma ctor_reverse_slot:
  assumes ctor: "RateManager_ctor ns rs = (m, None)"
    and i: "i < length rs"
  shows "i + length rs \<in> set (rate_slots (m_rate_groups m))
     \<longleftrightarrow> isReversible (rs ! i) \<and> FWD_of (rs ! i) \<noteq> REV_of (rs ! i)"
proof
  assume "i + length rs \<in> set (rate_slots (m_rate_groups m))"
  then obtain e where e: "e \<in> set (all_rates (m_rate_groups m))" "slot_of e = i + length rs"
    unfolding rate_slots_def by auto
  then obtain j where j: "j < length rs" "e \<in> set (rates_of (length rs) j (rs ! j))"
    using ctor_rates(2) [OF ctor] by blast
  have "e = (FWD_of (rs ! j), j, rateLaw (rs ! j))
      \<or> (e = (REV_of (rs ! j), j + length rs, rateLaw (rs ! j))
          \<and> isReversible (rs ! j) \<and> FWD_of (rs ! j) \<noteq> REV_of (rs ! j))"
    using j(2) by (simp add: rates_of_def split: if_splits)
  then show "isReversible (rs ! i) \<and> FWD_of (rs ! i) \<noteq> REV_of (rs ! i)"
  proof
    assume "e = (FWD_of (rs ! j), j, rateLaw (rs ! j))"
    then have False using e(2) j(1) by simp
    then show ?thesis ..
  next
    assume r: "e = (REV_of (rs ! j), j + length rs, rateLaw (rs ! j))
          \<and> isReversible (rs ! j) \<and> FWD_of (rs ! j) \<noteq> REV_of (rs ! j)"
    then have "j = i" using e(2) by simp
    then show ?thesis using r by simp
  qed
next
  assume "isReversible (rs ! i) \<and> FWD_of (rs ! i) \<noteq> REV_of (rs ! i)"
  then have "(REV_of (rs ! i), i + length rs, rateLaw (rs ! i)) \<in> set (rates_of (length rs) i (rs ! i))"
    by (simp add: rates_of_def)
  then have "(REV_of (rs ! i), i + length rs, rateLaw (rs ! i)) \<in> set (all_rates (m_rate_groups m))"
    using ctor_rates(2) [OF ctor] i by blast
  then have "slot_of (REV_of (rs ! i), i + length rs, rateLaw (rs ! i)) \<in> set (rate_slots (m_rate_groups m))"
    unfolding rate_slots_def set_map by (rule imageI)
  then show "i + length rs \<in> set (rate_slots (m_rate_groups m))" by simp
qed

lemma ctor_forward_slot:
  assumes ctor: "RateManager_ctor ns rs = (m, None)"
    and i: "i < length rs"
  shows "(FWD_of (rs ! i), i, rateLaw (rs ! i)) \<in> set (all_rates (m_rate_groups m))"
    and "i \<in> set (rate_slots (m_rate_groups m))"
proof -
  have "(FWD_of (rs ! i), i, rateLaw (rs ! i)) \<in> set (rates_of (length rs) i (rs ! i))"
    by (simp add: rates_of_def)
  then show e: "(FWD_of (rs ! i), i, rateLaw (rs ! i)) \<in> set (all_rates (m_rate_groups m))"
    using ctor_rates(2) [OF ctor] i by blast
  then have "slot_of (FWD_of (rs ! i), i, rateLaw (rs ! i)) \<in> set (rate_slots (m_rate_groups m))"
    unfolding rate_slots_def set_map by (rule imageI)
  then show "i \<in> set (rate_slots (m_rate_groups m))" by simp
qed

lemma ctor_slot_range:
  assumes ctor: "RateManager_ctor ns rs = (m, None)"
    and s: "s \<in> set (rate_slots (m_rate_groups m))"
  shows "s < 2 * length rs"
proof -
  obtain e where e: "e \<in> set (all_rates (m_rate_groups m))" "slot_of e = s"
    using s unfolding rate_slots_def by auto
  then obtain j where j: "j < length rs" "e \<in> set (rates_of (length rs) j (rs ! j))"
    using ctor_rates(2) [OF ctor] by blast
  then show ?thesis
    using e(2) by (auto simp: rates_of_def split: if_splits)
qed

subsection \<open>The examples\<close>

lemmas ctor_defs = RateManager_ctor_def RateManager_init_def RateManager_addReaction_def
  selectRate_def addRate_def addRateCoefficient_def RateLawGroupCollection_addReaction_def
  ForwardGroup_def ReverseGroup_def Let_def

lemma ex_ctor: "RateManager_ctor 2 ex_reactions = (fst (RateManager_ctor 2 ex_reactions), None)"
  by (simp add: ex_reactions_def ctor_defs)

lemma ex_block: "mp_lnkf (fst (RateManager_ctor 2 ex_reactions)) = Some (replicate 8 0)"
  using ctor_ok(7) [OF ex_ctor] by (simp add: ex_reactions_def)

lemma ex_species: "species_in_range 2 ex_reactions"
  by (simp add: species_in_range_def ex_reactions_def)

subsection \<open>Construction and update of the rate manager\<close>

text \<open>
  Claim C5. The constructor throws if and only if some reaction's rate law is of a
  class other than Arrhenius, constRate and rationalExp; when it throws, the block for
  \<open>ln kf\<close>, \<open>ln kb\<close> and the Gibbs energies has not been allocated (\<open>mp_lnkf\<close> is still
  \<open>NULL\<close>), and when it does not, the block has \<open>2 * nr + ns\<close> zeros.
\<close>

theorem RateManager_ctor_throws:
  "(snd (RateManager_ctor ns reactions) \<noteq> None
      \<longleftrightarrow> (\<exists>reaction \<in> set reactions.
             typeid (rateLaw reaction) \<notin> {typeid_Arrhenius, typeid_constRate, typeid_rationalExp}))
   \<and> (snd (RateManager_ctor ns reactions) \<noteq> None
        \<longrightarrow> mp_lnkf (fst (RateManager_ctor ns reactions)) = None)
   \<and> (snd (RateManager_ctor ns reactions) = None
        \<longrightarrow> mp_lnkf (fst (RateManager_ctor ns reactions))
              = Some (replicate (2 * length reactions + ns) 0))"
proof (intro conjI impI)
  show "snd (RateManager_ctor ns reactions) \<noteq> None
      \<longleftrightarrow> (\<exists>reaction \<in> set reactions.
             typeid (rateLaw reaction) \<notin> {typeid_Arrhenius, typeid_constRate, typeid_rationalExp})"
    using ctor_throws_iff [of ns reactions] by (simp only: implemented_def)
next
  assume "snd (RateManager_ctor ns reactions) \<noteq> None"
  then show "mp_lnkf (fst (RateManager_ctor ns reactions)) = None"
    by (rule ctor_throw_no_block)
next
  assume "snd (RateManager_ctor ns reactions) = None"
  then have "RateManager_ctor ns reactions = (fst (RateManager_ctor ns reactions), None)"
    by (simp add: prod_eq_iff)
  then show "mp_lnkf (fst (RateManager_ctor ns reactions)) = Some (replicate (2 * length reactions + ns) 0)"
    by (rule ctor_ok(7))
qed

theorem RateManager_ctor_throws_witness:
  "snd (RateManager_ctor 2 bad_reactions)
     = Some (InvalidInputError ''rate law'' typeid_expRat33 ''Rate law is not implemented in RateManager.'')
   \<and> mp_lnkf (fst (RateManager_ctor 2 bad_reactions)) = None
   \<and> snd (RateManager_ctor 2 ex_reactions) = None
   \<and> mp_lnkf (fst (RateManager_ctor 2 ex_reactions)) = Some (replicate 8 0)"
proof -
  have bad: "snd (RateManager_ctor 2 bad_reactions)
     = Some (InvalidInputError ''rate law'' typeid_expRat33 ''Rate law is not implemented in RateManager.'')"
    by (simp add: bad_reactions_def ctor_defs)
  have good: "snd (RateManager_ctor 2 ex_reactions) = None"
    by (simp add: ex_reactions_def ctor_defs)
  have len: "length ex_reactions = 3"
    by (simp add: ex_reactions_def)
  show ?thesis
    using bad good len RateManager_ctor_throws [of 2 bad_reactions] RateManager_ctor_throws [of 2 ex_reactions]
    by simp
qed

text \<open>
  Claim C4. After the construction over the reactions \<open>0 .. N - 1\<close>, every reaction has
  exactly one rate entry at the slot that is its index, in the group of its rate law and
  forward selector; every reversible reaction has exactly one of a rate entry at the
  slot index + reaction count and a place in the copy list (the latter exactly when the
  two group types are the same); an irreversible reaction has neither, and is once in
  the unused list; and there is no entry at any other slot.
\<close>

theorem RateManager_ctor_partition:
  assumes ctor: "RateManager_ctor ns reactions = (m, None)"
    and i: "i < length reactions"
  shows "count_list (rate_slots (m_rate_groups m)) i = 1
     \<and> (FWD_of (reactions ! i), i, rateLaw (reactions ! i)) \<in> set (all_rates (m_rate_groups m))
     \<and> (isReversible (reactions ! i) \<longrightarrow>
          count_list (rate_slots (m_rate_groups m)) (i + m_nr m) + count_list (m_to_copy m) i = 1
          \<and> (i \<in> set (m_to_copy m) \<longleftrightarrow> FWD_of (reactions ! i) = REV_of (reactions ! i))
          \<and> count_list (m_irr m) i = 0)
     \<and> (\<not> isReversible (reactions ! i) \<longrightarrow>
          count_list (rate_slots (m_rate_groups m)) (i + m_nr m) = 0
          \<and> count_list (m_to_copy m) i = 0
          \<and> count_list (m_irr m) i = 1)
     \<and> set (rate_slots (m_rate_groups m)) \<subseteq> {0 ..< 2 * length reactions}
     \<and> set (m_to_copy m) \<subseteq> {0 ..< length reactions}"
proof -
  let ?slots = "rate_slots (m_rate_groups m)"
  have nr: "m_nr m = length reactions" by (rule ctor_ok(5) [OF ctor])
  note d1 = count_list_distinct [OF ctor_rates(1) [OF ctor]]
  have "distinct (m_to_copy m)"
    by (simp add: ctor_ok(3) [OF ctor] distinct_copies)
  note d2 = count_list_distinct [OF this]
  note rev_slot = ctor_reverse_slot [OF ctor i]
  have copy: "i \<in> set (m_to_copy m)
      \<longleftrightarrow> isReversible (reactions ! i) \<and> FWD_of (reactions ! i) = REV_of (reactions ! i)"
    using ctor_copies [OF ctor, of i] i by simp
  have fw: "count_list ?slots i = 1"
    by (simp add: d1 ctor_forward_slot(2) [OF ctor i])
  have range1: "set ?slots \<subseteq> {0 ..< 2 * length reactions}"
  proof
    fix s assume "s \<in> set ?slots"
    then have "s < 2 * length reactions" by (rule ctor_slot_range [OF ctor])
    then show "s \<in> {0 ..< 2 * length reactions}" by simp
  qed
  have range2: "set (m_to_copy m) \<subseteq> {0 ..< length reactions}"
  proof
    fix x assume "x \<in> set (m_to_copy m)"
    then have "x < length reactions" using ctor_copies [OF ctor, of x] by simp
    then show "x \<in> {0 ..< length reactions}" by simp
  qed
  have "distinct (m_irr m)"
    by (simp add: ctor_ok(4) [OF ctor] distinct_irr)
  note d3 = count_list_distinct [OF this]
  note unused = ctor_irr [OF ctor i]
  have rev: "count_list ?slots (i + m_nr m) + count_list (m_to_copy m) i = 1
          \<and> (i \<in> set (m_to_copy m) \<longleftrightarrow> FWD_of (reactions ! i) = REV_of (reactions ! i))
          \<and> count_list (m_irr m) i = 0"
    if "isReversible (reactions ! i)"
  proof (cases "FWD_of (reactions ! i) = REV_of (reactions ! i)")
    case True
    then have "i + length reactions \<notin> set ?slots" "i \<in> set (m_to_copy m)" "i \<notin> set (m_irr m)"
      using rev_slot copy unused that by simp_all
    then show ?thesis using True by (simp add: nr d1 d2 d3)
  next
    case False
    then have "i + length reactions \<in> set ?slots" "i \<notin> set (m_to_copy m)" "i \<notin> set (m_irr m)"
      using rev_slot copy unused that by simp_all
    then show ?thesis using False by (simp add: nr d1 d2 d3)
  qed
  have irr: "count_list ?slots (i + m_nr m) = 0 \<and> count_list (m_to_copy m) i = 0
          \<and> count_list (m_irr m) i = 1"
    if "\<not> isReversible (reactions ! i)"
  proof -
    have "i + length reactions \<notin> set ?slots" "i \<notin> set (m_to_copy m)" "i \<in> set (m_irr m)"
      using rev_slot copy unused that by simp_all
    then show ?thesis by (simp add: nr d1 d2 d3)
  qed
  show ?thesis
    using fw ctor_forward_slot(1) [OF ctor i] rev irr range1 range2 by blast
qed

theorem RateManager_ctor_partition_witness:
  "count_list (rate_slots (m_rate_groups (fst (RateManager_ctor 2 ex_reactions)))) 0 = 1
   \<and> count_list (rate_slots (m_rate_groups (fst (RateManager_ctor 2 ex_reactions)))) (0 + 3)
       + count_list (m_to_copy (fst (RateManager_ctor 2 ex_reactions))) 0 = 1
   \<and> 0 \<in> set (m_to_copy (fst (RateManager_ctor 2 ex_reactions)))
   \<and> count_list (rate_slots (m_rate_groups (fst (RateManager_ctor 2 ex_reactions)))) 1 = 1
   \<and> count_list (rate_slots (m_rate_groups (fst (RateManager_ctor 2 ex_reactions)))) (1 + 3)
       + count_list (m_to_copy (fst (RateManager_ctor 2 ex_reactions))) 1 = 1
   \<and> 1 \<notin> set (m_to_copy (fst (RateManager_ctor 2 ex_reactions)))
   \<and> count_list (rate_slots (m_rate_groups (fst (RateManager_ctor 2 ex_reactions)))) 2 = 1
   \<and> count_list (rate_slots (m_rate_groups (fst (RateManager_ctor 2 ex_reactions)))) (2 + 3) = 0
   \<and> count_list (m_to_copy (fst (RateManager_ctor 2 ex_reactions))) 2 = 0
   \<and> count_list (m_irr (fst (RateManager_ctor 2 ex_reactions))) 2 = 1"
proof -
  have len: "length ex_reactions = 3" by (simp add: ex_reactions_def)
  have nr: "m_nr (fst (RateManager_ctor 2 ex_reactions)) = 3"
    using ctor_ok(5) [OF ex_ctor] len by simp
  have r: "isReversible (ex_reactions ! 0)" "FWD_of (ex_reactions ! 0) = REV_of (ex_reactions ! 0)"
    "isReversible (ex_reactions ! 1)" "FWD_of (ex_reactions ! 1) \<noteq> REV_of (ex_reactions ! 1)"
    "\<not> isReversible (ex_reactions ! 2)"
    by (simp_all add: ex_reactions_def FWD_of_def REV_of_def ForwardGroup_def ReverseGroup_def)
  have i: "0 < length ex_reactions" "1 < length ex_reactions" "2 < length ex_reactions"
    using len by simp_all
  show ?thesis
    using RateManager_ctor_partition [OF ex_ctor i(1)] RateManager_ctor_partition [OF ex_ctor i(2)]
      RateManager_ctor_partition [OF ex_ctor i(3)] r
    unfolding nr by (simp only: simp_thms)
qed

text \<open>
  Claim C1. For every reversible reaction of a constructed manager, whatever the block
  holds when \<open>update\<close> is called: \<open>update\<close> is the subtraction applied to the block that the
  evaluation and then the copy have left; in that block the reaction's \<open>ln kb\<close> slot holds
  the rate law evaluated at the reverse selector's temperature \<open>Tb\<close>; and the final value
  is that value minus \<open>ln Keq\<close>, combined from the species Gibbs energies over \<open>RT\<close> at
  \<open>Tb\<close> by the reaction's stoichiometry. The species indices of the reactions are below
  the species count.
\<close>

theorem RateManager_update_reversible:
  fixes thermo :: Thermodynamics
  assumes ctor: "RateManager_ctor ns reactions = (m, None)"
    and len: "length block = 2 * length reactions + ns"
    and i: "i < length reactions"
    and rev: "isReversible (reactions ! i)"
    and sp: "species_in_range ns reactions"
  defines "Tb \<equiv> getT (ReverseGroup (rxn_type (reactions ! i))) (thermo_state thermo)"
    and "after \<equiv> update_copy m (update_evaluate thermo m block)"
  shows "RateManager_update thermo (m\<lparr>mp_lnkf := Some block\<rparr>)
           = Some (m\<lparr>mp_lnkf := Some (update_subtract thermo m after)\<rparr>)
     \<and> after ! (mp_lnkb m + i) = getLnRate (rateLaw (reactions ! i)) Tb
     \<and> update_subtract thermo m after ! (mp_lnkb m + i)
           = after ! (mp_lnkb m + i) - lnKeq (speciesGOverRT thermo Tb) (reactions ! i)
     \<and> lnkb (m\<lparr>mp_lnkf := Some (update_subtract thermo m after)\<rparr>) ! i
           = getLnRate (rateLaw (reactions ! i)) Tb - lnKeq (speciesGOverRT thermo Tb) (reactions ! i)"
proof -
  have nr: "mp_lnkb m = length reactions" "m_nr m = length reactions"
    using ctor_offsets(1) [OF ctor] ctor_ok(5) [OF ctor] by simp_all
  have len2: "length after = 2 * length reactions + ns"
    using len by (simp add: after_def length_update_copy length_update_evaluate)
  have run: "RateManager_update thermo (m\<lparr>mp_lnkf := Some block\<rparr>)
           = Some (m\<lparr>mp_lnkf := Some (update_subtract thermo m after)\<rparr>)"
    by (simp only: update_set_block update_block_def after_def)
  have before: "after ! (mp_lnkb m + i) = getLnRate (rateLaw (reactions ! i)) Tb"
    unfolding after_def Tb_def nr by (rule after_copy_reverse [OF ctor len i rev])
  have sub: "update_subtract thermo m after ! (mp_lnkb m + i)
           = after ! (mp_lnkb m + i) - lnKeq (speciesGOverRT thermo Tb) (reactions ! i)"
    unfolding Tb_def nr by (rule subtract_reversible [OF ctor len2 i rev sp])
  have "lnkb (m\<lparr>mp_lnkf := Some (update_subtract thermo m after)\<rparr>) ! i
      = update_subtract thermo m after ! (mp_lnkb m + i)"
    using i len2 by (simp add: lnkb_def nr mp_lnkb_def length_update_subtract)
  then show ?thesis
    using run before sub by simp
qed

theorem RateManager_update_reversible_witness:
  "lnkb (the (RateManager_update ex_thermo (fst (RateManager_ctor 2 ex_reactions)))) ! 1 = - 1 - (- 6)"
proof -
  let ?m = "fst (RateManager_ctor 2 ex_reactions)"
  have m: "?m\<lparr>mp_lnkf := Some (replicate 8 0)\<rparr> = ?m"
    using ex_block by simp
  have len: "length (replicate 8 (0::real)) = 2 * length ex_reactions + 2" "1 < length ex_reactions"
    by (simp_all add: ex_reactions_def)
  have rev: "isReversible (ex_reactions ! 1)"
    by (simp add: ex_reactions_def)
  have rhs: "getLnRate (rateLaw (ex_reactions ! 1))
               (getT (ReverseGroup (rxn_type (ex_reactions ! 1))) (thermo_state ex_thermo)) = - 1"
    "lnKeq (speciesGOverRT ex_thermo
               (getT (ReverseGroup (rxn_type (ex_reactions ! 1))) (thermo_state ex_thermo)))
         (ex_reactions ! 1) = - 6"
    by (simp_all add: ex_reactions_def ex_thermo_def ReverseGroup_def lnKeq_def)
  show ?thesis
    using RateManager_update_reversible [OF ex_ctor len(1) len(2) rev ex_species, where thermo = ex_thermo]
    unfolding m rhs by simp
qed

text \<open>
  Claim C3, amended. For every reversible reaction whose forward selector is its reverse
  selector, \<open>ln kb\<close> after the copy step is \<open>ln kf\<close> at the same index, and evaluating the
  reaction's rate law again in its reverse group, at its \<open>ln kb\<close> slot, leaves the block
  as the copy made it. For an irreversible reaction the claim fails: nothing is written
  to its \<open>ln kb\<close> slot.
\<close>

theorem RateManager_update_copy_same_selector:
  fixes thermo :: Thermodynamics
  assumes ctor: "RateManager_ctor ns reactions = (m, None)"
    and len: "length block = 2 * length reactions + ns"
    and i: "i < length reactions"
    and rev: "isReversible (reactions ! i)"
    and same: "ForwardGroup (rxn_type (reactions ! i)) = ReverseGroup (rxn_type (reactions ! i))"
  defines "after \<equiv> update_copy m (update_evaluate thermo m block)"
  shows "after ! (mp_lnkb m + i) = after ! i
     \<and> after ! i = getLnRate (rateLaw (reactions ! i))
                      (getT (ForwardGroup (rxn_type (reactions ! i))) (thermo_state thermo))
     \<and> lnk (REV_of (reactions ! i)) \<lparr>m_rates = [(i + m_nr m, rateLaw (reactions ! i))], m_reacs = []\<rparr>
          (thermo_state thermo) after = after"
proof -
  have nr: "mp_lnkb m = length reactions" "m_nr m = length reactions"
    using ctor_offsets(1) [OF ctor] ctor_ok(5) [OF ctor] by simp_all
  have len1: "length (update_evaluate thermo m block) = 2 * length reactions + ns"
    using len by (simp add: length_update_evaluate)
  have len2: "length after = 2 * length reactions + ns"
    using len1 by (simp add: after_def length_update_copy)
  have fr: "FWD_of (reactions ! i) = REV_of (reactions ! i)"
    using same by (simp add: FWD_REV_eq)
  have lnkf_i: "after ! i = getLnRate (rateLaw (reactions ! i))
                      (getT (ForwardGroup (rxn_type (reactions ! i))) (thermo_state thermo))"
    unfolding after_def
    by (simp only: copy_forward [OF ctor i] evaluate_forward [OF ctor len i])
  have copied: "after ! (mp_lnkb m + i) = after ! i"
    unfolding after_def nr
    by (simp only: copy_copied [OF ctor len1 i rev fr] copy_forward [OF ctor i])
  have "after[i + m_nr m := getLnRate (rateLaw (reactions ! i))
                              (getT (snd (REV_of (reactions ! i))) (thermo_state thermo))] = after"
  proof -
    have "after ! (i + m_nr m) = getLnRate (rateLaw (reactions ! i))
                              (getT (snd (REV_of (reactions ! i))) (thermo_state thermo))"
      using copied lnkf_i same by (simp add: nr REV_of_def add.commute)
    then show ?thesis by (metis list_update_id)
  qed
  then have "lnk (REV_of (reactions ! i)) \<lparr>m_rates = [(i + m_nr m, rateLaw (reactions ! i))], m_reacs = []\<rparr>
          (thermo_state thermo) after = after"
    by (simp add: lnk_def)
  then show ?thesis
    using copied lnkf_i by simp
qed

theorem RateManager_update_copy_same_selector_witness:
  "update_copy (fst (RateManager_ctor 2 ex_reactions))
       (update_evaluate ex_thermo (fst (RateManager_ctor 2 ex_reactions)) (replicate 8 0))
     ! (mp_lnkb (fst (RateManager_ctor 2 ex_reactions)) + 0)
   = update_copy (fst (RateManager_ctor 2 ex_reactions))
       (update_evaluate ex_thermo (fst (RateManager_ctor 2 ex_reactions)) (replicate 8 0)) ! 0
   \<and> update_copy (fst (RateManager_ctor 2 ex_reactions))
       (update_evaluate ex_thermo (fst (RateManager_ctor 2 ex_reactions)) (replicate 8 0)) ! 0 = - 1"
proof -
  have len: "length (replicate 8 (0::real)) = 2 * length ex_reactions + 2" "0 < length ex_reactions"
    by (simp_all add: ex_reactions_def)
  have rev: "isReversible (ex_reactions ! 0)"
    "ForwardGroup (rxn_type (ex_reactions ! 0)) = ReverseGroup (rxn_type (ex_reactions ! 0))"
    by (simp_all add: ex_reactions_def ForwardGroup_def ReverseGroup_def)
  have rhs: "getLnRate (rateLaw (ex_reactions ! 0))
               (getT (ForwardGroup (rxn_type (ex_reactions ! 0))) (thermo_state ex_thermo)) = - 1"
    by (simp add: ex_reactions_def ex_thermo_def ForwardGroup_def)
  show ?thesis
    using RateManager_update_copy_same_selector [OF ex_ctor len(1) len(2) rev(1) rev(2), where thermo = ex_thermo]
    unfolding rhs by simp
qed

text \<open>
  The third reaction of the example is irreversible and both its selectors are \<open>T\<close>:
  after the evaluation and the copy on the freshly constructed manager its \<open>ln kb\<close> is
  \<open>0\<close> and its \<open>ln kf\<close> is \<open>3\<close>.
\<close>

theorem RateManager_update_copy_irreversible_counterexample:
  "snd (RateManager_ctor 2 ex_reactions) = None
   \<and> mp_lnkf (fst (RateManager_ctor 2 ex_reactions)) = Some (replicate 8 0)
   \<and> ForwardGroup (rxn_type (ex_reactions ! 2)) = ReverseGroup (rxn_type (ex_reactions ! 2))
   \<and> update_copy (fst (RateManager_ctor 2 ex_reactions))
       (update_evaluate ex_thermo (fst (RateManager_ctor 2 ex_reactions)) (replicate 8 0))
         ! (mp_lnkb (fst (RateManager_ctor 2 ex_reactions)) + 2) = 0
   \<and> update_copy (fst (RateManager_ctor 2 ex_reactions))
       (update_evaluate ex_thermo (fst (RateManager_ctor 2 ex_reactions)) (replicate 8 0)) ! 2 = 3
   \<and> update_copy (fst (RateManager_ctor 2 ex_reactions))
       (update_evaluate ex_thermo (fst (RateManager_ctor 2 ex_reactions)) (replicate 8 0))
         ! (mp_lnkb (fst (RateManager_ctor 2 ex_reactions)) + 2)
     \<noteq> update_copy (fst (RateManager_ctor 2 ex_reactions))
       (update_evaluate ex_thermo (fst (RateManager_ctor 2 ex_reactions)) (replicate 8 0)) ! 2"
proof -
  have ok: "snd (RateManager_ctor 2 ex_reactions) = None"
    using ex_ctor by (metis snd_conv)
  have same: "ForwardGroup (rxn_type (ex_reactions ! 2)) = ReverseGroup (rxn_type (ex_reactions ! 2))"
    by (simp add: ex_reactions_def ForwardGroup_def ReverseGroup_def)
  have len: "length (replicate 8 (0::real)) = 2 * length ex_reactions + 2" "2 < length ex_reactions"
    by (simp_all add: ex_reactions_def)
  have irr: "\<not> isReversible (ex_reactions ! 2)"
    by (simp add: ex_reactions_def)
  have nr: "mp_lnkb (fst (RateManager_ctor 2 ex_reactions)) = length ex_reactions"
    by (rule ctor_offsets(1) [OF ex_ctor])
  have "update_copy (fst (RateManager_ctor 2 ex_reactions))
       (update_evaluate ex_thermo (fst (RateManager_ctor 2 ex_reactions)) (replicate 8 0))
         ! (length ex_reactions + 2)
      = update_evaluate ex_thermo (fst (RateManager_ctor 2 ex_reactions)) (replicate 8 0)
         ! (length ex_reactions + 2)"
    by (rule copy_untouched [OF ex_ctor]) (simp add: irr)
  also have "\<dots> = replicate 8 0 ! (length ex_reactions + 2)"
    by (rule evaluate_untouched [OF ex_ctor len(2)]) (simp add: irr)
  also have "\<dots> = 0"
    by (simp add: ex_reactions_def)
  finally have kb: "update_copy (fst (RateManager_ctor 2 ex_reactions))
       (update_evaluate ex_thermo (fst (RateManager_ctor 2 ex_reactions)) (replicate 8 0))
         ! (length ex_reactions + 2) = 0" .
  have kf: "update_copy (fst (RateManager_ctor 2 ex_reactions))
       (update_evaluate ex_thermo (fst (RateManager_ctor 2 ex_reactions)) (replicate 8 0)) ! 2 = 3"
    by (simp add: copy_forward [OF ex_ctor len(2)] evaluate_forward [OF ex_ctor len(1) len(2)])
       (simp add: ex_reactions_def ex_thermo_def ForwardGroup_def)
  show ?thesis
    using ok ex_block same kb kf by (simp add: nr)
qed

text \<open>
  Claim C9. Two successive calls of \<open>update\<close> on a constructed manager, with the same
  thermodynamic state, give the same \<open>ln kf\<close> and \<open>ln kb\<close> arrays: the second call, which
  starts from the block the first has left, returns the arrays of the first.
\<close>

theorem RateManager_update_deterministic:
  assumes ctor: "RateManager_ctor ns reactions = (m, None)"
    and len: "length block = 2 * length reactions + ns"
    and sp: "species_in_range ns reactions"
  shows "\<exists>m1 m2. RateManager_update thermo (m\<lparr>mp_lnkf := Some block\<rparr>) = Some m1
           \<and> RateManager_update thermo m1 = Some m2
           \<and> lnkf m2 = lnkf m1 \<and> lnkb m2 = lnkb m1"
proof -
  let ?b1 = "update_block thermo m block"
  let ?b2 = "update_block thermo m ?b1"
  have nr: "m_nr m = length reactions" "mp_lnkb m = length reactions"
    using ctor_ok(5) [OF ctor] ctor_offsets(1) [OF ctor] by simp_all
  have first: "RateManager_update thermo (m\<lparr>mp_lnkf := Some block\<rparr>) = Some (m\<lparr>mp_lnkf := Some ?b1\<rparr>)"
    by (rule update_set_block)
  have second: "RateManager_update thermo (m\<lparr>mp_lnkf := Some ?b1\<rparr>) = Some (m\<lparr>mp_lnkf := Some ?b2\<rparr>)"
    by (rule update_set_block)
  have same: "take (2 * length reactions) ?b2 = take (2 * length reactions) ?b1"
    by (rule update_block_twice [OF ctor len sp])
  have "take (length reactions) (take (2 * length reactions) ?b2)
      = take (length reactions) (take (2 * length reactions) ?b1)"
    by (simp only: same)
  then have kf: "take (length reactions) ?b2 = take (length reactions) ?b1"
    by (simp add: min_def)
  have "drop (length reactions) (take (2 * length reactions) ?b2)
      = drop (length reactions) (take (2 * length reactions) ?b1)"
    by (simp only: same)
  then have kb: "take (length reactions) (drop (length reactions) ?b2)
      = take (length reactions) (drop (length reactions) ?b1)"
    by (simp add: drop_take mult_2)
  have "lnkf (m\<lparr>mp_lnkf := Some ?b2\<rparr>) = lnkf (m\<lparr>mp_lnkf := Some ?b1\<rparr>)"
    "lnkb (m\<lparr>mp_lnkf := Some ?b2\<rparr>) = lnkb (m\<lparr>mp_lnkf := Some ?b1\<rparr>)"
    using kf kb by (simp_all add: lnkf_def lnkb_def nr mp_lnkb_def)
  then show ?thesis
    using first second by blast
qed

theorem RateManager_update_deterministic_witness:
  "\<exists>m1 m2. RateManager_update ex_thermo (fst (RateManager_ctor 2 ex_reactions)) = Some m1
           \<and> RateManager_update ex_thermo m1 = Some m2
           \<and> lnkf m2 = lnkf m1 \<and> lnkb m2 = lnkb m1"
proof -
  let ?m = "fst (RateManager_ctor 2 ex_reactions)"
  have m: "?m\<lparr>mp_lnkf := Some (replicate 8 0)\<rparr> = ?m"
    using ex_block by simp
  have len: "length (replicate 8 (0::real)) = 2 * length ex_reactions + 2"
    by (simp add: ex_reactions_def)
  show ?thesis
    using RateManager_update_deterministic [OF ex_ctor len ex_species, where thermo = ex_thermo]
    unfolding m .
qed

end
